theory Spec2Isabelle
  imports Main "HOL-Library.Word"
begin

unbundle bit_operations_syntax

section \<open>Common types\<close>

type_synonym byte = "8 word"
type_synonym uint32 = "32 word"

text \<open>The status codes of \<^verbatim>\<open>dc_status_t\<close> that the modelled functions return.\<close>

datatype dc_status =
    DC_STATUS_SUCCESS
  | DC_STATUS_INVALIDARGS
  | DC_STATUS_NOMEMORY
  | DC_STATUS_NOACCESS
  | DC_STATUS_UNSUPPORTED
  | DC_STATUS_IO
  | DC_STATUS_TIMEOUT
  | DC_STATUS_PROTOCOL
  | DC_STATUS_DATAFORMAT
  | DC_STATUS_CANCELLED

section \<open>Byte-array helpers\<close>

text \<open>Modelled from the spec: \<^verbatim>\<open>array_uint16_le\<close> and \<^verbatim>\<open>array_uint32_le\<close> of array.h,
  which is not among the sources; the spec describes them as little-endian integer
  extraction from byte arrays. The first argument is the array, the second the offset
  of the pointer handed to the C function.\<close>

definition array_uint16_le :: "byte list \<Rightarrow> nat \<Rightarrow> uint32" where
  "array_uint16_le data off =
     ucast (data ! off) + push_bit 8 (ucast (data ! (off + 1)))"

definition array_uint32_le :: "byte list \<Rightarrow> nat \<Rightarrow> uint32" where
  "array_uint32_le data off =
     ucast (data ! off) + push_bit 8 (ucast (data ! (off + 1)))
       + push_bit 16 (ucast (data ! (off + 2))) + push_bit 24 (ucast (data ! (off + 3)))"

section \<open>Fingerprints of a device session\<close>

subsection \<open>Cressi Leonardo\<close>

text \<open>The part of \<^verbatim>\<open>cressi_leonardo_device_t\<close> that the session keeps between calls:
  the five fingerprint bytes.\<close>

record cressi_leonardo_device =
  fingerprint :: "byte list"

definition cressi_fingerprint_size :: nat where
  "cressi_fingerprint_size = 5"

text \<open>\<^verbatim>\<open>cressi_leonardo_device_open\<close> clears the fingerprint with memset.\<close>

definition cressi_leonardo_device_new :: cressi_leonardo_device where
  "cressi_leonardo_device_new = \<lparr> fingerprint = replicate cressi_fingerprint_size 0 \<rparr>"

text \<open>\<^verbatim>\<open>cressi_leonardo_device_set_fingerprint\<close>: the status and the session after the call.
  The memcpy reads \<^verbatim>\<open>sizeof (device->fingerprint)\<close> bytes of \<open>data\<close>.\<close>

definition cressi_leonardo_device_set_fingerprint ::
  "cressi_leonardo_device \<Rightarrow> byte list \<Rightarrow> nat \<Rightarrow> dc_status \<times> cressi_leonardo_device" where
  "cressi_leonardo_device_set_fingerprint device data sz =
     (if sz \<noteq> 0 \<and> sz \<noteq> cressi_fingerprint_size then (DC_STATUS_INVALIDARGS, device)
      else if sz \<noteq> 0
        then (DC_STATUS_SUCCESS, device \<lparr> fingerprint := take cressi_fingerprint_size data \<rparr>)
        else (DC_STATUS_SUCCESS, device \<lparr> fingerprint := replicate cressi_fingerprint_size 0 \<rparr>))"

subsection \<open>Uwatec Smart\<close>

text \<open>The part of \<^verbatim>\<open>uwatec_smart_device_t\<close> that set_fingerprint touches: the timestamp,
  beside the clock calibration values it leaves alone.\<close>

record uwatec_smart_device =
  timestamp :: uint32
  devtime :: uint32

definition uwatec_smart_device_set_fingerprint ::
  "uwatec_smart_device \<Rightarrow> byte list \<Rightarrow> nat \<Rightarrow> dc_status \<times> uwatec_smart_device" where
  "uwatec_smart_device_set_fingerprint device data sz =
     (if sz \<noteq> 0 \<and> sz \<noteq> 4 then (DC_STATUS_INVALIDARGS, device)
      else if sz \<noteq> 0
        then (DC_STATUS_SUCCESS, device \<lparr> timestamp := array_uint32_le data 0 \<rparr>)
        else (DC_STATUS_SUCCESS, device \<lparr> timestamp := 0 \<rparr>))"

text \<open>The four bytes that \<^verbatim>\<open>uwatec_smart_device_dump\<close> puts into its command template
  from the stored timestamp.\<close>

definition uwatec_timestamp_bytes :: "uint32 \<Rightarrow> byte list" where
  "uwatec_timestamp_bytes t =
     [ucast (t AND 0xFF), ucast (drop_bit 8 t AND 0xFF),
      ucast (drop_bit 16 t AND 0xFF), ucast (drop_bit 24 t AND 0xFF)]"


section \<open>Framed transfer with bounded retry (Cressi Leonardo)\<close>

definition MAXRETRIES :: nat where
  "MAXRETRIES = 4"

text \<open>\<^verbatim>\<open>cressi_leonardo_packet\<close> talks to the serial line, so its successive results are
  the environment of the retry loop: \<open>packet k\<close> is the status of the attempt number
  \<open>k\<close> (counted from 0) and the answer buffer it leaves behind.\<close>

type_synonym packet_env = "nat \<Rightarrow> dc_status \<times> byte list"

text \<open>The while loop of \<^verbatim>\<open>cressi_leonardo_transfer\<close>, with the retry bound as a parameter.
  Every iteration calls the packet function once, so the attempt made in an iteration is the
  one numbered \<open>nretries\<close>. The result is the returned status, the answer buffer and the
  number of attempts made. The post-increment test \<^verbatim>\<open>nretries++ >= MAXRETRIES\<close> compares the
  value before the increment.\<close>

function cressi_leonardo_transfer_loop ::
  "nat \<Rightarrow> packet_env \<Rightarrow> nat \<Rightarrow> dc_status \<times> byte list \<times> nat" where
  "cressi_leonardo_transfer_loop maxretries packet nretries =
     (case packet nretries of (rc, answer) \<Rightarrow>
        if rc = DC_STATUS_SUCCESS then (rc, answer, nretries + 1)
        else if rc \<noteq> DC_STATUS_PROTOCOL \<and> rc \<noteq> DC_STATUS_TIMEOUT then (rc, answer, nretries + 1)
        else if nretries \<ge> maxretries then (rc, answer, nretries + 1)
        else cressi_leonardo_transfer_loop maxretries packet (nretries + 1))"
  by pat_completeness auto
termination
  by (relation "measure (\<lambda>(maxretries, packet, nretries). maxretries - nretries)") auto

declare cressi_leonardo_transfer_loop.simps [simp del]

definition cressi_leonardo_transfer :: "packet_env \<Rightarrow> dc_status \<times> byte list \<times> nat" where
  "cressi_leonardo_transfer packet = cressi_leonardo_transfer_loop MAXRETRIES packet 0"

section \<open>Socket transport\<close>

datatype s_errcode =
    S_EINTR | S_EAGAIN | S_EINVAL | S_ENOMEM | S_EACCES | S_EAFNOSUPPORT | S_EOTHER

fun dc_socket_syserror :: "s_errcode \<Rightarrow> dc_status" where
  "dc_socket_syserror S_EINVAL = DC_STATUS_INVALIDARGS"
| "dc_socket_syserror S_ENOMEM = DC_STATUS_NOMEMORY"
| "dc_socket_syserror S_EACCES = DC_STATUS_NOACCESS"
| "dc_socket_syserror S_EAFNOSUPPORT = DC_STATUS_UNSUPPORTED"
| "dc_socket_syserror _ = DC_STATUS_IO"

text \<open>The field of \<^verbatim>\<open>dc_socket_t\<close> that the transfer loops read: the timeout in
  milliseconds, negative for blocking.\<close>

record dc_socket =
  timeout :: int

definition dc_socket_set_timeout :: "dc_socket \<Rightarrow> int \<Rightarrow> dc_status \<times> dc_socket" where
  "dc_socket_set_timeout socket t = (DC_STATUS_SUCCESS, socket \<lparr> timeout := t \<rparr>)"

text \<open>What the operating system does in one iteration of a transfer loop. During the
  readiness wait the descriptor becomes ready after some microseconds, never becomes ready,
  or the wait fails with an error code; the transfer primitive (recv or send), when it is
  called, fails with an error code or returns a byte count.\<close>

datatype wait_event = Wait_ready nat | Wait_never | Wait_error s_errcode

datatype xfer_result = Xfer_error s_errcode | Xfer_count nat

type_synonym socket_env = "nat \<Rightarrow> wait_event \<times> xfer_result"

datatype select_result = Select_error s_errcode | Select_count nat

text \<open>The select system call on one descriptor, as POSIX defines it: with a timeout
  (seconds, microseconds) it returns 0 when the descriptor is not ready in time; with a
  null timeout it blocks until the descriptor is ready, so it does not return (\<open>None\<close>)
  when that never happens.\<close>

fun select_call :: "(nat \<times> nat) option \<Rightarrow> wait_event \<Rightarrow> select_result option" where
  "select_call tv (Wait_error e) = Some (Select_error e)"
| "select_call None (Wait_ready d) = Some (Select_count 1)"
| "select_call (Some (sec, usec)) (Wait_ready d) =
     Some (Select_count (if d \<le> sec * 1000000 + usec then 1 else 0))"
| "select_call None Wait_never = None"
| "select_call (Some tv) Wait_never = Some (Select_count 0)"

text \<open>The timeout argument that \<^verbatim>\<open>dc_socket_read\<close> builds for select, and the one that
  \<^verbatim>\<open>dc_socket_write\<close> passes (a null pointer).\<close>

definition dc_socket_read_tvt :: "dc_socket \<Rightarrow> (nat \<times> nat) option" where
  "dc_socket_read_tvt socket =
     (if timeout socket > 0
        then Some (nat (timeout socket div 1000), nat (timeout socket mod 1000) * 1000)
      else if timeout socket = 0 then Some (0, 0)
      else None)"

definition dc_socket_write_tvt :: "dc_socket \<Rightarrow> (nat \<times> nat) option" where
  "dc_socket_write_tvt socket = None"

text \<open>The code after the loop: a short count is a timeout; the byte count goes to the
  \<open>actual\<close> out-parameter.\<close>

definition dc_socket_finish :: "nat \<Rightarrow> nat \<Rightarrow> dc_status \<times> nat" where
  "dc_socket_finish sz nbytes =
     (if nbytes \<noteq> sz then DC_STATUS_TIMEOUT else DC_STATUS_SUCCESS, nbytes)"

text \<open>The loop of \<^verbatim>\<open>dc_socket_read\<close> from its iteration number \<open>k\<close> on. It returns the status
  and the value stored through \<open>actual\<close>, or \<open>None\<close> when the call never returns.\<close>

partial_function (option) dc_socket_read_loop ::
  "dc_socket \<Rightarrow> socket_env \<Rightarrow> nat \<Rightarrow> nat \<Rightarrow> nat \<Rightarrow> (dc_status \<times> nat) option" where
  "dc_socket_read_loop socket env sz k nbytes =
     (if nbytes < sz then
        (case select_call (dc_socket_read_tvt socket) (fst (env k)) of
           None \<Rightarrow> None
         | Some (Select_error errcode) \<Rightarrow>
             if errcode = S_EINTR then dc_socket_read_loop socket env sz (k + 1) nbytes
             else Some (dc_socket_syserror errcode, nbytes)
         | Some (Select_count rc) \<Rightarrow>
             if rc = 0 then Some (dc_socket_finish sz nbytes)
             else (case snd (env k) of
                Xfer_error errcode \<Rightarrow>
                  if errcode = S_EINTR \<or> errcode = S_EAGAIN
                    then dc_socket_read_loop socket env sz (k + 1) nbytes
                  else Some (dc_socket_syserror errcode, nbytes)
              | Xfer_count n \<Rightarrow>
                  if n = 0 then Some (dc_socket_finish sz nbytes)
                  else dc_socket_read_loop socket env sz (k + 1) (nbytes + n)))
      else Some (dc_socket_finish sz nbytes))"

definition dc_socket_read :: "dc_socket \<Rightarrow> socket_env \<Rightarrow> nat \<Rightarrow> (dc_status \<times> nat) option" where
  "dc_socket_read socket env sz = dc_socket_read_loop socket env sz 0 0"

partial_function (option) dc_socket_write_loop ::
  "dc_socket \<Rightarrow> socket_env \<Rightarrow> nat \<Rightarrow> nat \<Rightarrow> nat \<Rightarrow> (dc_status \<times> nat) option" where
  "dc_socket_write_loop socket env sz k nbytes =
     (if nbytes < sz then
        (case select_call (dc_socket_write_tvt socket) (fst (env k)) of
           None \<Rightarrow> None
         | Some (Select_error errcode) \<Rightarrow>
             if errcode = S_EINTR then dc_socket_write_loop socket env sz (k + 1) nbytes
             else Some (dc_socket_syserror errcode, nbytes)
         | Some (Select_count rc) \<Rightarrow>
             if rc = 0 then Some (dc_socket_finish sz nbytes)
             else (case snd (env k) of
                Xfer_error errcode \<Rightarrow>
                  if errcode = S_EINTR \<or> errcode = S_EAGAIN
                    then dc_socket_write_loop socket env sz (k + 1) nbytes
                  else Some (dc_socket_syserror errcode, nbytes)
              | Xfer_count n \<Rightarrow>
                  if n = 0 then Some (dc_socket_finish sz nbytes)
                  else dc_socket_write_loop socket env sz (k + 1) (nbytes + n)))
      else Some (dc_socket_finish sz nbytes))"

definition dc_socket_write :: "dc_socket \<Rightarrow> socket_env \<Rightarrow> nat \<Rightarrow> (dc_status \<times> nat) option" where
  "dc_socket_write socket env sz = dc_socket_write_loop socket env sz 0 0"


section \<open>Dive extraction\<close>

text \<open>How a call of an extractor ends: it returns a status, or it reads or writes outside
  an array, which C leaves undefined.\<close>

datatype outcome = Returned dc_status | Undefined

subsection \<open>Uwatec Smart\<close>

definition uwatec_header :: "byte list" where
  "uwatec_header = [0xA5, 0xA5, 0x5A, 0x5A]"

text \<open>One invocation of the dive callback: the offset \<open>current\<close> of the record pointer
  \<^verbatim>\<open>data + current\<close> and the record size \<open>len\<close> handed over. The callback is a function
  of the calls it has received before (its user data) and of the present call; it answers
  whether to continue. \<open>None\<close> is the null callback.\<close>

record uwatec_call =
  call_offset :: nat
  call_len :: nat

type_synonym uwatec_callback = "uwatec_call list \<Rightarrow> uwatec_call \<Rightarrow> bool"

text \<open>The search loop of \<^verbatim>\<open>uwatec_smart_extract_dives\<close>. The offsets are below the array
  size; the sum \<^verbatim>\<open>current + len\<close> of two unsigned ints is taken modulo \<open>2 ^ 32\<close>. The length
  field is read at \<^verbatim>\<open>data + current + 4\<close>, four bytes that lie outside the array when the
  marker is found less than eight bytes before its end.\<close>

function uwatec_smart_extract_loop ::
  "byte list \<Rightarrow> uwatec_callback option \<Rightarrow> nat \<Rightarrow> nat \<Rightarrow> uwatec_call list
     \<Rightarrow> outcome \<times> uwatec_call list" where
  "uwatec_smart_extract_loop data callback previous current calls =
     (if current > 0 then
        (if take 4 (drop (current - 1) data) = uwatec_header then
           (if current - 1 + 8 > length data then (Undefined, calls)
            else if (current - 1 + unat (array_uint32_le data (current - 1 + 4))) mod 2 ^ 32 > previous
              then (Returned DC_STATUS_DATAFORMAT, calls)
            else (case callback of
               None \<Rightarrow>
                 uwatec_smart_extract_loop data callback (current - 1)
                   (if current - 1 \<ge> 4 then current - 1 - 4 else 0) calls
             | Some f \<Rightarrow>
                 (let c = \<lparr> call_offset = current - 1,
                             call_len = unat (array_uint32_le data (current - 1 + 4)) \<rparr>
                  in if \<not> f calls c then (Returned DC_STATUS_SUCCESS, calls @ [c])
                     else uwatec_smart_extract_loop data callback (current - 1)
                            (if current - 1 \<ge> 4 then current - 1 - 4 else 0) (calls @ [c]))))
         else uwatec_smart_extract_loop data callback previous (current - 1) calls)
      else (Returned DC_STATUS_SUCCESS, calls))"
  by pat_completeness auto
termination
  by (relation "measure (\<lambda>(data, callback, previous, current, calls). current)") auto

declare uwatec_smart_extract_loop.simps [simp del]

text \<open>\<^verbatim>\<open>uwatec_smart_extract_dives\<close> for a null device or a device of this family (the only
  ones for which the instance test passes); \<open>size\<close> is the length of the array.\<close>

definition uwatec_smart_extract_dives ::
  "byte list \<Rightarrow> uwatec_callback option \<Rightarrow> outcome \<times> uwatec_call list" where
  "uwatec_smart_extract_dives data callback =
     uwatec_smart_extract_loop data callback (length data)
       (if length data \<ge> 4 then length data - 4 else 0) []"

subsection \<open>Cressi Leonardo\<close>

definition SZ_MEMORY :: nat where "SZ_MEMORY = 32000"
definition RB_LOGBOOK_BEGIN :: nat where "RB_LOGBOOK_BEGIN = 0x0100"
definition RB_LOGBOOK_END :: nat where "RB_LOGBOOK_END = 0x1438"
definition RB_LOGBOOK_SIZE :: nat where "RB_LOGBOOK_SIZE = 0x52"
definition RB_LOGBOOK_COUNT :: nat where
  "RB_LOGBOOK_COUNT = (RB_LOGBOOK_END - RB_LOGBOOK_BEGIN) div RB_LOGBOOK_SIZE"
definition RB_PROFILE_BEGIN :: uint32 where "RB_PROFILE_BEGIN = 0x1438"
definition RB_PROFILE_END :: uint32 where "RB_PROFILE_END = 32000"

text \<open>Modelled from the spec: \<^verbatim>\<open>ringbuffer_distance\<close> of ringbuffer.h, which is not among the
  sources; the spec calls it the circular distance from header to footer in the profile
  region. With mode 0 equal pointers are at distance 0.\<close>

definition ringbuffer_distance :: "uint32 \<Rightarrow> uint32 \<Rightarrow> uint32 \<Rightarrow> uint32 \<Rightarrow> uint32" where
  "ringbuffer_distance a b begin end =
     (if a < b then (b - a) mod (end - begin)
      else if a > b then (end - begin) - (a - b) mod (end - begin)
      else 0)"

definition RB_PROFILE_DISTANCE :: "uint32 \<Rightarrow> uint32 \<Rightarrow> uint32" where
  "RB_PROFILE_DISTANCE a b = ringbuffer_distance a b RB_PROFILE_BEGIN RB_PROFILE_END"

text \<open>Modelled from the spec: \<^verbatim>\<open>array_isequal\<close> of array.h, which is not among the sources;
  the spec uses it for the test that a slot is all 0xFF. It tells whether the \<open>n\<close> bytes
  from offset \<open>off\<close> all equal \<open>v\<close>.\<close>

definition array_isequal :: "byte list \<Rightarrow> nat \<Rightarrow> nat \<Rightarrow> byte \<Rightarrow> bool" where
  "array_isequal data off n v = list_all (\<lambda>b. b = v) (take n (drop off data))"

text \<open>The first loop of \<^verbatim>\<open>cressi_leonardo_extract_dives\<close>, which locates the most recent
  dive: from slot \<open>i\<close> on, with the running \<open>count\<close>, \<open>latest\<close> and \<open>maximum\<close>; it
  returns the final \<open>count\<close> and \<open>latest\<close>.\<close>

function cressi_leonardo_locate ::
  "byte list \<Rightarrow> nat \<Rightarrow> nat \<Rightarrow> nat \<Rightarrow> uint32 \<Rightarrow> nat \<times> nat" where
  "cressi_leonardo_locate data i count latest maximum =
     (if i < RB_LOGBOOK_COUNT then
        (if array_isequal data (RB_LOGBOOK_BEGIN + i * RB_LOGBOOK_SIZE) RB_LOGBOOK_SIZE 0xFF
           then (count, latest)
         else if array_uint16_le data (RB_LOGBOOK_BEGIN + i * RB_LOGBOOK_SIZE) = 0xFFFF
           then (count, latest)
         else if array_uint16_le data (RB_LOGBOOK_BEGIN + i * RB_LOGBOOK_SIZE) > maximum
           then cressi_leonardo_locate data (i + 1) (count + 1) i
                  (array_uint16_le data (RB_LOGBOOK_BEGIN + i * RB_LOGBOOK_SIZE))
         else cressi_leonardo_locate data (i + 1) (count + 1) latest maximum)
      else (count, latest))"
  by pat_completeness auto
termination
  by (relation "measure (\<lambda>(data, i, count, latest, maximum). RB_LOGBOOK_COUNT - i)") auto

declare cressi_leonardo_locate.simps [simp del]

text \<open>One invocation of the dive callback: the \<open>size\<close> bytes of the scratch buffer it may
  read, and the five bytes at \<^verbatim>\<open>buffer + 8\<close> handed over as the fingerprint.\<close>

record dive_call =
  call_data :: "byte list"
  call_fingerprint :: "byte list"

type_synonym dc_dive_callback = "dive_call list \<Rightarrow> dive_call \<Rightarrow> bool"

text \<open>A memcpy of \<open>n\<close> bytes from offset \<open>off\<close> of the memory image, undefined when it
  reads past the end of the image.\<close>

definition memcpy_from :: "byte list \<Rightarrow> uint32 \<Rightarrow> uint32 \<Rightarrow> byte list option" where
  "memcpy_from data off n =
     (if unat off + unat n \<le> length data then Some (take (unat n) (drop (unat off) data))
      else None)"

text \<open>The copy of the profile data into the scratch buffer behind the logbook entry, in one
  piece or in two when the range wraps around the end of the profile region. The buffer has
  room for \<^verbatim>\<open>RB_PROFILE_END - RB_PROFILE_BEGIN\<close> profile bytes; a longer copy writes past
  its end.\<close>

definition copy_profile :: "byte list \<Rightarrow> uint32 \<Rightarrow> uint32 \<Rightarrow> byte list option" where
  "copy_profile data address len =
     (if unat len > unat (RB_PROFILE_END - RB_PROFILE_BEGIN) then None
      else if address + len > RB_PROFILE_END then
        (case memcpy_from data address (RB_PROFILE_END - address) of
           None \<Rightarrow> None
         | Some part_a \<Rightarrow>
            (case memcpy_from data RB_PROFILE_BEGIN (len - (RB_PROFILE_END - address)) of
               None \<Rightarrow> None
             | Some part_b \<Rightarrow> Some (part_a @ part_b)))
      else memcpy_from data address len)"

definition logbook_offset :: "nat \<Rightarrow> nat" where
  "logbook_offset idx = RB_LOGBOOK_BEGIN + idx * RB_LOGBOOK_SIZE"

definition logbook_entry :: "byte list \<Rightarrow> nat \<Rightarrow> byte list" where
  "logbook_entry data idx = take RB_LOGBOOK_SIZE (drop (logbook_offset idx) data)"

text \<open>The slot visited by iteration \<open>i\<close> of the second loop.\<close>

definition walk_idx :: "nat \<Rightarrow> nat \<Rightarrow> nat" where
  "walk_idx latest i = (latest + RB_LOGBOOK_COUNT - i) mod RB_LOGBOOK_COUNT"

text \<open>The memcmp of the slot's bytes 8 to 12 with the fingerprint of the device; a null
  device has none.\<close>

definition fingerprint_match :: "cressi_leonardo_device option \<Rightarrow> byte list \<Rightarrow> nat \<Rightarrow> bool" where
  "fingerprint_match device data idx =
     (case device of
        None \<Rightarrow> False
      | Some d \<Rightarrow> take cressi_fingerprint_size (drop (logbook_offset idx + 8) data) = fingerprint d)"

text \<open>The second loop of \<^verbatim>\<open>cressi_leonardo_extract_dives\<close> from iteration \<open>i\<close> on, with the
  running \<open>previous\<close> and \<open>remaining\<close> and the callback invocations made so far. The scratch
  buffer is taken as allocated.\<close>

function cressi_leonardo_walk ::
  "cressi_leonardo_device option \<Rightarrow> byte list \<Rightarrow> dc_dive_callback option \<Rightarrow> nat \<Rightarrow> nat
     \<Rightarrow> nat \<Rightarrow> uint32 \<Rightarrow> uint32 \<Rightarrow> dive_call list \<Rightarrow> outcome \<times> dive_call list" where
  "cressi_leonardo_walk device data callback latest count i previous remaining calls =
     (if i < count then
        (let idx = walk_idx latest i;
             offset = logbook_offset idx;
             header = array_uint16_le data (offset + 2);
             footer = array_uint16_le data (offset + 4)
         in
         if header < RB_PROFILE_BEGIN \<or> header + 2 > RB_PROFILE_END \<or>
            footer < RB_PROFILE_BEGIN \<or> footer + 2 > RB_PROFILE_END
           then (Returned DC_STATUS_DATAFORMAT, calls)
         else if previous \<noteq> 0 \<and> previous \<noteq> footer + 2
           then (Returned DC_STATUS_DATAFORMAT, calls)
         else if fingerprint_match device data idx
           then (Returned DC_STATUS_SUCCESS, calls)
         else
           (let entry = logbook_entry data idx;
                address = header + 2;
                len = RB_PROFILE_DISTANCE header footer - 2
            in
            if remaining \<noteq> 0 \<and> remaining \<ge> len + 4 then
              (if array_uint16_le data (unat footer) \<noteq> header \<or>
                  array_uint16_le data (unat header) \<noteq> footer
                 then (Returned DC_STATUS_DATAFORMAT, calls)
               else
                 (case copy_profile data address len of
                    None \<Rightarrow> (Undefined, calls)
                  | Some profile \<Rightarrow>
                     (case callback of
                        None \<Rightarrow>
                          cressi_leonardo_walk device data callback latest count (i + 1)
                            header (remaining - (len + 4)) calls
                      | Some f \<Rightarrow>
                         (let c = \<lparr> call_data = entry @ profile,
                                     call_fingerprint = take cressi_fingerprint_size (drop 8 entry) \<rparr>
                          in if \<not> f calls c then (Returned DC_STATUS_SUCCESS, calls @ [c])
                             else cressi_leonardo_walk device data callback latest count (i + 1)
                                    header (remaining - (len + 4)) (calls @ [c])))))
            else
              (case callback of
                 None \<Rightarrow>
                   cressi_leonardo_walk device data callback latest count (i + 1) header 0 calls
               | Some f \<Rightarrow>
                  (let c = \<lparr> call_data = entry,
                              call_fingerprint = take cressi_fingerprint_size (drop 8 entry) \<rparr>
                   in if \<not> f calls c then (Returned DC_STATUS_SUCCESS, calls @ [c])
                      else cressi_leonardo_walk device data callback latest count (i + 1)
                             header 0 (calls @ [c])))))
      else (Returned DC_STATUS_SUCCESS, calls))"
  by pat_completeness auto
termination
  by (relation "measure (\<lambda>(device, data, callback, latest, count, i, previous, remaining, calls).
        count - i)") auto

declare cressi_leonardo_walk.simps [simp del]

text \<open>\<^verbatim>\<open>cressi_leonardo_extract_dives\<close> for a null device or a device of this family;
  \<open>size\<close> is the length of the image.\<close>

definition cressi_leonardo_extract_dives ::
  "cressi_leonardo_device option \<Rightarrow> byte list \<Rightarrow> dc_dive_callback option
     \<Rightarrow> outcome \<times> dive_call list" where
  "cressi_leonardo_extract_dives device data callback =
     (if length data < SZ_MEMORY then (Returned DC_STATUS_DATAFORMAT, [])
      else (case cressi_leonardo_locate data 0 0 0 0 of (count, latest) \<Rightarrow>
        cressi_leonardo_walk device data callback latest count 0 0
          (RB_PROFILE_END - RB_PROFILE_BEGIN) []))"


subsection \<open>A line with three corrupted answers\<close>

text \<open>The first three packet attempts fail the checksum test, the fourth succeeds with an
  answer frame.\<close>

definition three_crc_failures :: packet_env where
  "three_crc_failures k =
     (if k < 3 then (DC_STATUS_PROTOCOL, [0x7B, 0x30, 0x30, 0x7D])
      else (DC_STATUS_SUCCESS, [0x7B, 0x34, 0x32, 0x7D]))"

subsection \<open>A dump whose older record carries the length 0xFFFFFFFF\<close>

text \<open>Two records: a start marker at offset 13 with length 12, which ends with the dump, and
  before it a start marker at offset 1 whose length field is 0xFFFFFFFF.\<close>

definition overflow_dump :: "byte list" where
  "overflow_dump =
     [0x00,
      0xA5, 0xA5, 0x5A, 0x5A, 0xFF, 0xFF, 0xFF, 0xFF, 0x01, 0x02, 0x03, 0x04,
      0xA5, 0xA5, 0x5A, 0x5A, 0x0C, 0x00, 0x00, 0x00, 0x05, 0x06, 0x07, 0x08]"

text \<open>A callback that always asks to continue.\<close>

definition accept_all :: uwatec_callback where
  "accept_all calls c = True"

subsection \<open>Vocabulary for the iterations of a socket transfer\<close>

text \<open>The readiness wait reports the descriptor ready; the wait expires.\<close>

definition wait_ready :: "(nat \<times> nat) option \<Rightarrow> wait_event \<Rightarrow> bool" where
  "wait_ready tv w =
     (case select_call tv w of Some (Select_count rc) \<Rightarrow> rc \<noteq> 0 | _ \<Rightarrow> False)"

definition wait_expired :: "(nat \<times> nat) option \<Rightarrow> wait_event \<Rightarrow> bool" where
  "wait_expired tv w = (select_call tv w = Some (Select_count 0))"

text \<open>An iteration that meets an interrupted wait, or an interrupted or would-block
  transfer after a ready wait.\<close>

definition interrupted :: "(nat \<times> nat) option \<Rightarrow> wait_event \<times> xfer_result \<Rightarrow> bool" where
  "interrupted tv e =
     (fst e = Wait_error S_EINTR \<or>
      (wait_ready tv (fst e) \<and> (snd e = Xfer_error S_EINTR \<or> snd e = Xfer_error S_EAGAIN)))"

text \<open>The bytes that an iteration moves: the positive count of a transfer after a ready
  wait, and none otherwise.\<close>

definition moved :: "(nat \<times> nat) option \<Rightarrow> wait_event \<times> xfer_result \<Rightarrow> nat" where
  "moved tv e =
     (if wait_ready tv (fst e) then (case snd e of Xfer_count n \<Rightarrow> n | Xfer_error _ \<Rightarrow> 0)
      else 0)"

text \<open>An iteration in which the wait expires or the peer has closed (a transfer of zero
  bytes after a ready wait).\<close>

definition short_stop :: "(nat \<times> nat) option \<Rightarrow> wait_event \<times> xfer_result \<Rightarrow> bool" where
  "short_stop tv e =
     (wait_expired tv (fst e) \<or> (wait_ready tv (fst e) \<and> snd e = Xfer_count 0))"

subsection \<open>A peer that stalls after three bytes\<close>

text \<open>A socket with a timeout of one second, and a peer that interrupts the first wait,
  delivers three bytes, answers would-block once and then never becomes ready again.\<close>

definition socket_1s :: dc_socket where
  "socket_1s = \<lparr> timeout = 1000 \<rparr>"

definition stalling_peer :: socket_env where
  "stalling_peer k =
     (if k = 0 then (Wait_error S_EINTR, Xfer_count 0)
      else if k = 1 then (Wait_ready 10, Xfer_count 3)
      else if k = 2 then (Wait_ready 5, Xfer_error S_EAGAIN)
      else (Wait_never, Xfer_count 0))"

text \<open>A peer whose descriptor never becomes ready.\<close>

definition never_ready :: socket_env where
  "never_ready k = (Wait_never, Xfer_count 0)"

text \<open>A peer at which every readiness wait is interrupted by a signal.\<close>

definition interrupting_peer :: socket_env where
  "interrupting_peer k = (Wait_error S_EINTR, Xfer_count 0)"

text \<open>A socket left at the timeout that \<^verbatim>\<open>dc_socket_open\<close> sets: blocking reads.\<close>

definition socket_blocking :: dc_socket where
  "socket_blocking = \<lparr> timeout = - 1 \<rparr>"

subsection \<open>Vocabulary for the logbook walk\<close>

definition slot_header :: "byte list \<Rightarrow> nat \<Rightarrow> uint32" where
  "slot_header data idx = array_uint16_le data (logbook_offset idx + 2)"

definition slot_footer :: "byte list \<Rightarrow> nat \<Rightarrow> uint32" where
  "slot_footer data idx = array_uint16_le data (logbook_offset idx + 4)"

definition slot_counter :: "byte list \<Rightarrow> nat \<Rightarrow> uint32" where
  "slot_counter data idx = array_uint16_le data (logbook_offset idx)"

text \<open>The identifier of a slot: its bytes 8 to 12.\<close>

definition slot_identifier :: "byte list \<Rightarrow> nat \<Rightarrow> byte list" where
  "slot_identifier data idx = take cressi_fingerprint_size (drop (logbook_offset idx + 8) data)"

text \<open>The range test of the ringbuffer pointers, passed.\<close>

definition pointers_ok :: "byte list \<Rightarrow> nat \<Rightarrow> bool" where
  "pointers_ok data idx =
     (\<not> (slot_header data idx < RB_PROFILE_BEGIN \<or> slot_header data idx + 2 > RB_PROFILE_END \<or>
         slot_footer data idx < RB_PROFILE_BEGIN \<or> slot_footer data idx + 2 > RB_PROFILE_END))"

text \<open>The record that the callback receives for a slot without profile data.\<close>

definition entry_call :: "byte list \<Rightarrow> nat \<Rightarrow> dive_call" where
  "entry_call data idx =
     \<lparr> call_data = logbook_entry data idx,
       call_fingerprint = take cressi_fingerprint_size (drop 8 (logbook_entry data idx)) \<rparr>"

text \<open>An iteration passes the three tests that come before the copy: the pointer range,
  the continuity with the previous iteration, and the fingerprint.\<close>

definition reaches_copy ::
  "cressi_leonardo_device option \<Rightarrow> byte list \<Rightarrow> nat \<Rightarrow> uint32 \<Rightarrow> bool" where
  "reaches_copy device data idx previous =
     (pointers_ok data idx \<and> (previous = 0 \<or> previous = slot_footer data idx + 2)
      \<and> \<not> fingerprint_match device data idx)"

text \<open>The profile length of a slot, and the test that the remaining capacity holds it.\<close>

definition slot_length :: "byte list \<Rightarrow> nat \<Rightarrow> uint32" where
  "slot_length data idx = RB_PROFILE_DISTANCE (slot_header data idx) (slot_footer data idx) - 2"

definition has_capacity :: "uint32 \<Rightarrow> byte list \<Rightarrow> nat \<Rightarrow> bool" where
  "has_capacity remaining data idx =
     (remaining \<noteq> 0 \<and> remaining \<ge> slot_length data idx + 4)"

text \<open>The profile region repeats the pointers of the slot.\<close>

definition profile_echo :: "byte list \<Rightarrow> nat \<Rightarrow> bool" where
  "profile_echo data idx =
     (array_uint16_le data (unat (slot_footer data idx)) = slot_header data idx \<and>
      array_uint16_le data (unat (slot_header data idx)) = slot_footer data idx)"

definition slot_profile :: "byte list \<Rightarrow> nat \<Rightarrow> byte list option" where
  "slot_profile data idx = copy_profile data (slot_header data idx + 2) (slot_length data idx)"

text \<open>The record that the callback receives for a slot with its profile data.\<close>

definition profile_call :: "byte list \<Rightarrow> nat \<Rightarrow> byte list \<Rightarrow> dive_call" where
  "profile_call data idx profile =
     \<lparr> call_data = logbook_entry data idx @ profile,
       call_fingerprint = take cressi_fingerprint_size (drop 8 (logbook_entry data idx)) \<rparr>"

subsection \<open>Memory images for the examples\<close>

text \<open>A memory image of \<open>SZ_MEMORY\<close> bytes, 0xFF everywhere but at the listed offsets.\<close>

definition image_byte :: "(nat \<times> byte) list \<Rightarrow> nat \<Rightarrow> byte" where
  "image_byte bytes i = (case map_of bytes i of Some b \<Rightarrow> b | None \<Rightarrow> 0xFF)"

definition image_of :: "(nat \<times> byte) list \<Rightarrow> byte list" where
  "image_of bytes = map (image_byte bytes) [0..<32000]"

text \<open>Two dives: slot 0 with counter 1, identifier 0E 01 01 0A 00 and the profile from
  0x1438 to 0x143C; slot 1 with counter 2, identifier 0E 01 02 0B 1E and the profile from
  0x143E to 0x1442, right behind the first.\<close>

definition two_dives_bytes :: "(nat \<times> byte) list" where
  "two_dives_bytes =
     [(0x100, 0x01), (0x101, 0x00), (0x102, 0x38), (0x103, 0x14), (0x104, 0x3C), (0x105, 0x14),
      (0x108, 0x0E), (0x109, 0x01), (0x10A, 0x01), (0x10B, 0x0A), (0x10C, 0x00),
      (0x152, 0x02), (0x153, 0x00), (0x154, 0x3E), (0x155, 0x14), (0x156, 0x42), (0x157, 0x14),
      (0x15A, 0x0E), (0x15B, 0x01), (0x15C, 0x02), (0x15D, 0x0B), (0x15E, 0x1E),
      (0x1438, 0x3C), (0x1439, 0x14), (0x143A, 0x11), (0x143B, 0x22), (0x143C, 0x38), (0x143D, 0x14),
      (0x143E, 0x42), (0x143F, 0x14), (0x1440, 0x33), (0x1441, 0x44), (0x1442, 0x3E), (0x1443, 0x14)]"

definition two_dives :: "byte list" where
  "two_dives = image_of two_dives_bytes"

text \<open>A callback that always asks to continue.\<close>

definition continue_always :: dc_dive_callback where
  "continue_always calls c = True"

text \<open>The logbook entry at the head of a record, and the internal dive number in it.\<close>

definition call_entry :: "dive_call \<Rightarrow> byte list" where
  "call_entry c = take RB_LOGBOOK_SIZE (call_data c)"

definition call_counter :: "dive_call \<Rightarrow> uint32" where
  "call_counter c = array_uint16_le (call_data c) 0"

text \<open>A slot at which the walk ends without a record: its pointers are out of range or its
  identifier is the fingerprint of the device.\<close>

definition walk_barrier :: "cressi_leonardo_device option \<Rightarrow> byte list \<Rightarrow> nat \<Rightarrow> bool" where
  "walk_barrier device data idx = (\<not> pointers_ok data idx \<or> fingerprint_match device data idx)"

text \<open>Three profiles laid one behind the other in the profile region, from 0x1438 to 0x143C,
  from 0x143E to 0x1442 and from 0x1444 to 0x1448, each with the pointers of its dive at both
  ends.\<close>

definition three_profiles :: "(nat \<times> byte) list" where
  "three_profiles =
     [(0x1438, 0x3C), (0x1439, 0x14), (0x143A, 0x11), (0x143B, 0x22), (0x143C, 0x38), (0x143D, 0x14),
      (0x143E, 0x42), (0x143F, 0x14), (0x1440, 0x33), (0x1441, 0x44), (0x1442, 0x3E), (0x1443, 0x14),
      (0x1444, 0x48), (0x1445, 0x14), (0x1446, 0x55), (0x1447, 0x66), (0x1448, 0x44), (0x1449, 0x14)]"

text \<open>Three written slots with the internal dive numbers 5, 7 and 6, the other slots never
  written. In the first image the profiles follow each other in the order of the dive
  numbers (dive 5, dive 6, dive 7); in the second in the order of the slots (slot 0, slot 1,
  slot 2).\<close>

definition dives_5_7_6_by_number :: "byte list" where
  "dives_5_7_6_by_number = image_of
     ([(0x100, 0x05), (0x101, 0x00), (0x102, 0x38), (0x103, 0x14), (0x104, 0x3C), (0x105, 0x14),
       (0x108, 0x0E), (0x109, 0x01), (0x10A, 0x01), (0x10B, 0x0A), (0x10C, 0x00),
       (0x152, 0x07), (0x153, 0x00), (0x154, 0x44), (0x155, 0x14), (0x156, 0x48), (0x157, 0x14),
       (0x15A, 0x0E), (0x15B, 0x01), (0x15C, 0x03), (0x15D, 0x0C), (0x15E, 0x05),
       (0x1A4, 0x06), (0x1A5, 0x00), (0x1A6, 0x3E), (0x1A7, 0x14), (0x1A8, 0x42), (0x1A9, 0x14),
       (0x1AC, 0x0E), (0x1AD, 0x01), (0x1AE, 0x02), (0x1AF, 0x0B), (0x1B0, 0x1E)] @ three_profiles)"

definition dives_5_7_6_by_slot :: "byte list" where
  "dives_5_7_6_by_slot = image_of
     ([(0x100, 0x05), (0x101, 0x00), (0x102, 0x38), (0x103, 0x14), (0x104, 0x3C), (0x105, 0x14),
       (0x108, 0x0E), (0x109, 0x01), (0x10A, 0x01), (0x10B, 0x0A), (0x10C, 0x00),
       (0x152, 0x07), (0x153, 0x00), (0x154, 0x3E), (0x155, 0x14), (0x156, 0x42), (0x157, 0x14),
       (0x15A, 0x0E), (0x15B, 0x01), (0x15C, 0x03), (0x15D, 0x0C), (0x15E, 0x05),
       (0x1A4, 0x06), (0x1A5, 0x00), (0x1A6, 0x44), (0x1A7, 0x14), (0x1A8, 0x48), (0x1A9, 0x14),
       (0x1AC, 0x0E), (0x1AD, 0x01), (0x1AE, 0x02), (0x1AF, 0x0B), (0x1B0, 0x1E)] @ three_profiles)"

text \<open>The value of \<open>previous\<close> on entry to iteration \<open>i\<close> of a walk that has emitted every
  dive so far.\<close>

definition previous_at :: "byte list \<Rightarrow> nat \<Rightarrow> nat \<Rightarrow> uint32" where
  "previous_at data latest i = (if i = 0 then 0 else slot_header data (walk_idx latest (i - 1)))"

text \<open>The value of \<open>remaining\<close> on entry to iteration \<open>i\<close> of a walk that has emitted every
  dive so far: the capacity of the scratch buffer, less the profile of every dive that it
  held, and 0 from the first dive on that it did not hold.\<close>

fun remaining_at :: "byte list \<Rightarrow> nat \<Rightarrow> nat \<Rightarrow> uint32" where
  "remaining_at data latest 0 = RB_PROFILE_END - RB_PROFILE_BEGIN"
| "remaining_at data latest (Suc j) =
     (if has_capacity (remaining_at data latest j) data (walk_idx latest j)
        then remaining_at data latest j - (slot_length data (walk_idx latest j) + 4)
      else 0)"

text \<open>Iteration \<open>j\<close> of a walk that has emitted every dive so far gets through: it passes
  the tests that the source makes on its slot, apart from the fingerprint, and its memcpy is
  defined. The tests are those of the source, in its order and under its conditions: the
  pointers are in range; the previous pointer is 0 or the footer plus 2; and, only when the
  remaining capacity holds the profile, the profile region repeats the pointers of the slot.
  The source makes no test on the memcpy of the profile: that it stays inside the image
  and the scratch buffer is a condition on the image, needed for the call to have a
  defined result at all.\<close>

definition slot_passes :: "byte list \<Rightarrow> nat \<Rightarrow> nat \<Rightarrow> bool" where
  "slot_passes data latest j =
     (pointers_ok data (walk_idx latest j)
      \<and> (previous_at data latest j = 0
           \<or> previous_at data latest j = slot_footer data (walk_idx latest j) + 2)
      \<and> (has_capacity (remaining_at data latest j) data (walk_idx latest j) \<longrightarrow>
            profile_echo data (walk_idx latest j) \<and> slot_profile data (walk_idx latest j) \<noteq> None))"

text \<open>The two dives again, with an identifier of five zero bytes in slot 0; and with a header
  pointer of 0 in slot 1.\<close>

definition zero_identifier_dives :: "byte list" where
  "zero_identifier_dives = image_of
     ([(0x108, 0x00), (0x109, 0x00), (0x10A, 0x00), (0x10B, 0x00), (0x10C, 0x00)] @ two_dives_bytes)"

definition bad_pointer_dives :: "byte list" where
  "bad_pointer_dives = image_of ([(0x154, 0x00), (0x155, 0x00)] @ two_dives_bytes)"

text \<open>Two dives of which the newer has overwritten the older. Slot 0 has the counter 1 and
  the profile from 0x1438 to 0x2000. Slot 1 has the counter 2 and the profile from 0x2002,
  right behind the first, around the end of the profile region and on to 0x1F00, over most
  of the older profile: 26564 bytes of profile data, which leave 256 bytes of the
  capacity.\<close>

definition overwritten_dives_bytes :: "(nat \<times> byte) list" where
  "overwritten_dives_bytes =
     [(0x100, 0x01), (0x101, 0x00), (0x102, 0x38), (0x103, 0x14), (0x104, 0x00), (0x105, 0x20),
      (0x108, 0x0E), (0x109, 0x01), (0x10A, 0x01), (0x10B, 0x0A), (0x10C, 0x00),
      (0x152, 0x02), (0x153, 0x00), (0x154, 0x02), (0x155, 0x20), (0x156, 0x00), (0x157, 0x1F),
      (0x15A, 0x0E), (0x15B, 0x01), (0x15C, 0x02), (0x15D, 0x0B), (0x15E, 0x1E),
      (0x1F00, 0x02), (0x1F01, 0x20), (0x2002, 0x00), (0x2003, 0x1F)]"

definition overwritten_dives :: "byte list" where
  "overwritten_dives = image_of overwritten_dives_bytes"

section \<open>Properties\<close>

subsection \<open>Little-endian helpers\<close>

lemma byte_bit_bound: "bit (w :: byte) n \<Longrightarrow> n < 8"
  by (drule bit_imp_le_length) simp

lemma ff_mask: "(255 :: uint32) = mask 8"
  by (simp add: mask_eq_exp_minus_1)

lemma array_uint32_le_or:
  "array_uint32_le data off =
     ucast (data ! off) OR push_bit 8 (ucast (data ! (off + 1)))
       OR push_bit 16 (ucast (data ! (off + 2))) OR push_bit 24 (ucast (data ! (off + 3)))"
proof -
  let ?a = "ucast (data ! off) :: uint32"
  let ?b = "push_bit 8 (ucast (data ! (off + 1))) :: uint32"
  let ?c = "push_bit 16 (ucast (data ! (off + 2))) :: uint32"
  let ?d = "push_bit 24 (ucast (data ! (off + 3))) :: uint32"
  have 1: "?a + ?b = ?a OR ?b"
    by (rule disjunctive_add_eq_or, rule bit_word_eqI) (auto simp: bit_simps dest: byte_bit_bound)
  have 2: "(?a OR ?b) + ?c = (?a OR ?b) OR ?c"
    by (rule disjunctive_add_eq_or, rule bit_word_eqI) (auto simp: bit_simps dest: byte_bit_bound)
  have 3: "(?a OR ?b OR ?c) + ?d = (?a OR ?b OR ?c) OR ?d"
    by (rule disjunctive_add_eq_or, rule bit_word_eqI) (auto simp: bit_simps dest: byte_bit_bound)
  show ?thesis
    unfolding array_uint32_le_def 1 2 by (simp only: 3 or.assoc)
qed

lemma uwatec_timestamp_bytes_uint32_le:
  "uwatec_timestamp_bytes (array_uint32_le [a, b, c, d] 0) = [a, b, c, d]"
  apply (simp add: uwatec_timestamp_bytes_def array_uint32_le_or ff_mask)
  apply (intro conjI)
     apply (rule bit_word_eqI; auto simp: bit_simps dest: byte_bit_bound)+
  done

lemma length_four_cases:
  assumes "length (xs :: 'a list) = 4"
  obtains a b c d where "xs = [a, b, c, d]"
proof -
  from assms obtain a xs1 where 1: "xs = a # xs1" "length xs1 = 3" by (cases xs) auto
  then obtain b xs2 where 2: "xs1 = b # xs2" "length xs2 = 2" by (cases xs1) auto
  then obtain c xs3 where 3: "xs2 = c # xs3" "length xs3 = 1" by (cases xs2) auto
  then obtain d where 4: "xs3 = [d]" by (cases xs3) auto
  from 1 2 3 4 that show thesis by simp
qed

subsection \<open>Setting the fingerprint\<close>

text \<open>Claim C7. A fingerprint whose size is neither 0 nor the fixed length of the family
  (5 bytes for the Cressi Leonardo, 4 bytes for the Uwatec Smart) is rejected with
  InvalidArgs and the session is returned unchanged. A fingerprint of the fixed length is
  stored: the Leonardo keeps the five bytes, the Smart keeps them as a little-endian
  32-bit timestamp from which the same four bytes are read back. Size 0 resets the
  fingerprint to the value the session is opened with (all zero).\<close>

theorem set_fingerprint_contract:
  "(sz \<noteq> 0 \<and> sz \<noteq> 5 \<longrightarrow>
      cressi_leonardo_device_set_fingerprint cdev data sz = (DC_STATUS_INVALIDARGS, cdev))
   \<and> (sz \<noteq> 0 \<and> sz \<noteq> 4 \<longrightarrow>
      uwatec_smart_device_set_fingerprint udev data sz = (DC_STATUS_INVALIDARGS, udev))
   \<and> (length data = 5 \<longrightarrow>
      cressi_leonardo_device_set_fingerprint cdev data 5
        = (DC_STATUS_SUCCESS, cdev \<lparr> fingerprint := data \<rparr>))
   \<and> (length data = 4 \<longrightarrow>
      (\<exists>udev'. uwatec_smart_device_set_fingerprint udev data 4 = (DC_STATUS_SUCCESS, udev')
         \<and> uwatec_timestamp_bytes (timestamp udev') = data \<and> devtime udev' = devtime udev))
   \<and> cressi_leonardo_device_set_fingerprint cdev data 0
        = (DC_STATUS_SUCCESS, cdev \<lparr> fingerprint := fingerprint cressi_leonardo_device_new \<rparr>)
   \<and> uwatec_smart_device_set_fingerprint udev data 0
        = (DC_STATUS_SUCCESS, udev \<lparr> timestamp := 0 \<rparr>)"
proof (intro conjI impI)
  assume "length data = 4"
  then obtain a b c d where "data = [a, b, c, d]" by (rule length_four_cases)
  then show "\<exists>udev'. uwatec_smart_device_set_fingerprint udev data 4 = (DC_STATUS_SUCCESS, udev')
         \<and> uwatec_timestamp_bytes (timestamp udev') = data \<and> devtime udev' = devtime udev"
    by (simp add: uwatec_smart_device_set_fingerprint_def uwatec_timestamp_bytes_uint32_le)
qed (simp_all add: cressi_leonardo_device_set_fingerprint_def
       uwatec_smart_device_set_fingerprint_def cressi_fingerprint_size_def
       cressi_leonardo_device_new_def)

theorem set_fingerprint_contract_witness:
  "cressi_leonardo_device_set_fingerprint \<lparr> fingerprint = [1, 2, 3, 4, 5] \<rparr> [9, 8, 7, 6] 4
      = (DC_STATUS_INVALIDARGS, \<lparr> fingerprint = [1, 2, 3, 4, 5] \<rparr>)
   \<and> uwatec_smart_device_set_fingerprint \<lparr> timestamp = 7, devtime = 1 \<rparr> [9, 8, 7, 6] 4
      = (DC_STATUS_SUCCESS, \<lparr> timestamp = 0x06070809, devtime = 1 \<rparr>)
   \<and> uwatec_timestamp_bytes 0x06070809 = [9, 8, 7, 6]
   \<and> uwatec_smart_device_set_fingerprint \<lparr> timestamp = 7, devtime = 1 \<rparr> [5, 4, 3, 2, 1] 5
      = (DC_STATUS_INVALIDARGS, \<lparr> timestamp = 7, devtime = 1 \<rparr>)
   \<and> cressi_leonardo_device_set_fingerprint \<lparr> fingerprint = [1, 2, 3, 4, 5] \<rparr> [5, 4, 3, 2, 1] 5
      = (DC_STATUS_SUCCESS, \<lparr> fingerprint = [5, 4, 3, 2, 1] \<rparr>)
   \<and> cressi_leonardo_device_set_fingerprint \<lparr> fingerprint = [1, 2, 3, 4, 5] \<rparr> [] 0
      = (DC_STATUS_SUCCESS, \<lparr> fingerprint = replicate 5 0 \<rparr>)"
  using set_fingerprint_contract [of 4 "\<lparr> fingerprint = [1, 2, 3, 4, 5] \<rparr>" "[9, 8, 7, 6]"
      "\<lparr> timestamp = 7, devtime = 1 \<rparr>"]
    set_fingerprint_contract [of 5 "\<lparr> fingerprint = [1, 2, 3, 4, 5] \<rparr>" "[5, 4, 3, 2, 1]"
      "\<lparr> timestamp = 7, devtime = 1 \<rparr>"]
    set_fingerprint_contract [of 0 "\<lparr> fingerprint = [1, 2, 3, 4, 5] \<rparr>" "[]"
      "\<lparr> timestamp = 7, devtime = 1 \<rparr>"]
  by (simp add: uwatec_smart_device_set_fingerprint_def array_uint32_le_def
      uwatec_timestamp_bytes_def cressi_leonardo_device_new_def cressi_fingerprint_size_def)

subsection \<open>Framed transfer\<close>

lemma transfer_loop_retry:
  "fst (packet n) = DC_STATUS_PROTOCOL \<or> fst (packet n) = DC_STATUS_TIMEOUT \<Longrightarrow> n < m \<Longrightarrow>
     cressi_leonardo_transfer_loop m packet n = cressi_leonardo_transfer_loop m packet (n + 1)"
  by (subst cressi_leonardo_transfer_loop.simps) (auto split: prod.splits)

lemma transfer_loop_skip:
  assumes "n \<le> j" and "j \<le> m"
    and "\<forall>k. n \<le> k \<and> k < j \<longrightarrow>
           fst (packet k) = DC_STATUS_PROTOCOL \<or> fst (packet k) = DC_STATUS_TIMEOUT"
  shows "cressi_leonardo_transfer_loop m packet n = cressi_leonardo_transfer_loop m packet j"
  using assms
proof (induction rule: dec_induct)
  case base
  show ?case ..
next
  case (step k)
  then have "cressi_leonardo_transfer_loop m packet n = cressi_leonardo_transfer_loop m packet k"
    by simp
  also have "\<dots> = cressi_leonardo_transfer_loop m packet (k + 1)"
    using step.hyps step.prems by (intro transfer_loop_retry) auto
  finally show ?case by simp
qed

lemma transfer_loop_success:
  "fst (packet n) = DC_STATUS_SUCCESS \<Longrightarrow>
     cressi_leonardo_transfer_loop m packet n = (DC_STATUS_SUCCESS, snd (packet n), n + 1)"
  by (subst cressi_leonardo_transfer_loop.simps) (auto split: prod.splits)

lemma transfer_loop_exhausted:
  "fst (packet n) = DC_STATUS_PROTOCOL \<or> fst (packet n) = DC_STATUS_TIMEOUT \<Longrightarrow> m \<le> n \<Longrightarrow>
     cressi_leonardo_transfer_loop m packet n = (fst (packet n), snd (packet n), n + 1)"
  by (subst cressi_leonardo_transfer_loop.simps) (auto split: prod.splits)

lemma transfer_loop_other:
  "fst (packet n) \<notin> {DC_STATUS_SUCCESS, DC_STATUS_PROTOCOL, DC_STATUS_TIMEOUT} \<Longrightarrow>
     cressi_leonardo_transfer_loop m packet n = (fst (packet n), snd (packet n), n + 1)"
  by (subst cressi_leonardo_transfer_loop.simps) (auto split: prod.splits)

text \<open>Claim C3, as the code has it. When the first three packet attempts fail with Protocol
  and the fourth succeeds, the transfer succeeds with the fourth answer after four attempts
  under the bound 4 of the source, and also under a bound of 3: the test
  \<^verbatim>\<open>nretries++ >= MAXRETRIES\<close> gives up at the failure number \<open>MAXRETRIES + 1\<close>, so a bound
  \<open>m\<close> permits \<open>m + 1\<close> attempts. The transfer fails with Protocol under every bound of
  at most 2, after \<open>m + 1\<close> attempts. Under every bound, a status other than Success,
  Protocol and Timeout is returned at once, with no further attempt.\<close>

theorem transfer_retry_budget:
  "((\<forall>k<3. fst (packet k) = DC_STATUS_PROTOCOL) \<and> fst (packet 3) = DC_STATUS_SUCCESS \<longrightarrow>
      cressi_leonardo_transfer packet = (DC_STATUS_SUCCESS, snd (packet 3), 4)
      \<and> cressi_leonardo_transfer_loop 3 packet 0 = (DC_STATUS_SUCCESS, snd (packet 3), 4)
      \<and> (\<forall>m\<le>2. cressi_leonardo_transfer_loop m packet 0 = (DC_STATUS_PROTOCOL, snd (packet m), m + 1)))
   \<and> (fst (packet n) \<notin> {DC_STATUS_SUCCESS, DC_STATUS_PROTOCOL, DC_STATUS_TIMEOUT} \<longrightarrow>
      cressi_leonardo_transfer_loop maxretries packet n = (fst (packet n), snd (packet n), n + 1))"
proof (intro conjI impI allI)
  assume a: "(\<forall>k<3. fst (packet k) = DC_STATUS_PROTOCOL) \<and> fst (packet 3) = DC_STATUS_SUCCESS"
  then have p: "fst (packet 0) = DC_STATUS_PROTOCOL" "fst (packet 1) = DC_STATUS_PROTOCOL"
    "fst (packet 2) = DC_STATUS_PROTOCOL" and s: "fst (packet 3) = DC_STATUS_SUCCESS"
    by simp_all
  have four: "cressi_leonardo_transfer_loop m packet 0 = (DC_STATUS_SUCCESS, snd (packet 3), 4)"
    if "3 \<le> m" for m
  proof -
    have "cressi_leonardo_transfer_loop m packet 0 = cressi_leonardo_transfer_loop m packet 3"
      using a that by (intro transfer_loop_skip) auto
    also have "\<dots> = (DC_STATUS_SUCCESS, snd (packet 3), 4)"
      using transfer_loop_success [of packet 3 m] s by simp
    finally show ?thesis .
  qed
  show "cressi_leonardo_transfer packet = (DC_STATUS_SUCCESS, snd (packet 3), 4)"
    unfolding cressi_leonardo_transfer_def MAXRETRIES_def by (rule four) simp
  show "cressi_leonardo_transfer_loop 3 packet 0 = (DC_STATUS_SUCCESS, snd (packet 3), 4)"
    by (rule four) simp
  fix m :: nat
  assume m: "m \<le> 2"
  have stop: "cressi_leonardo_transfer_loop m packet m = (DC_STATUS_PROTOCOL, snd (packet m), m + 1)"
    using transfer_loop_exhausted [of packet m m] a m by simp
  have "cressi_leonardo_transfer_loop m packet 0 = cressi_leonardo_transfer_loop m packet m"
    using a m by (intro transfer_loop_skip) auto
  with stop
  show "cressi_leonardo_transfer_loop m packet 0 = (DC_STATUS_PROTOCOL, snd (packet m), m + 1)"
    by simp
next
  assume "fst (packet n) \<notin> {DC_STATUS_SUCCESS, DC_STATUS_PROTOCOL, DC_STATUS_TIMEOUT}"
  then show "cressi_leonardo_transfer_loop maxretries packet n
      = (fst (packet n), snd (packet n), n + 1)"
    by (rule transfer_loop_other)
qed

theorem transfer_retry_budget_witness:
  "cressi_leonardo_transfer three_crc_failures = (DC_STATUS_SUCCESS, [0x7B, 0x34, 0x32, 0x7D], 4)
   \<and> cressi_leonardo_transfer_loop 2 three_crc_failures 0
        = (DC_STATUS_PROTOCOL, [0x7B, 0x30, 0x30, 0x7D], 3)
   \<and> cressi_leonardo_transfer_loop 4 (\<lambda>k. (DC_STATUS_IO, [])) 0 = (DC_STATUS_IO, [], 1)"
  using transfer_retry_budget [of three_crc_failures 0 0]
    transfer_retry_budget [of "\<lambda>k. (DC_STATUS_IO, [])" 0 4]
  by (simp add: three_crc_failures_def)

text \<open>The claim's second case fails: under a bound of 3 the fourth attempt is still made,
  and the transfer succeeds.\<close>

theorem transfer_bound_three_counterexample:
  "cressi_leonardo_transfer_loop 3 three_crc_failures 0
     = (DC_STATUS_SUCCESS, [0x7B, 0x34, 0x32, 0x7D], 4)"
  by (simp add: cressi_leonardo_transfer_loop.simps three_crc_failures_def)

subsection \<open>Uwatec Smart extraction\<close>

text \<open>Claim C10 at the dump above. The record at offset 13 is passed to the callback first.
  For the marker at offset 1 the sum \<^verbatim>\<open>current + len\<close> is \<open>1 + 0xFFFFFFFF\<close>, which is 0 in
  32 bits and so not above \<open>previous = 13\<close>: the test commented as the check for a buffer
  overflow passes, and the record is passed to the callback with length 4294967295, an
  extent that runs over the start of the record emitted before, where the claim has
  DataFormat and no callback.\<close>

theorem uwatec_length_overflow:
  "uwatec_smart_extract_dives overflow_dump (Some accept_all)
     = (Returned DC_STATUS_SUCCESS,
        [\<lparr> call_offset = 13, call_len = 12 \<rparr>, \<lparr> call_offset = 1, call_len = 4294967295 \<rparr>])
   \<and> 1 + 4294967295 > (13 :: nat)"
  by (simp add: uwatec_smart_extract_dives_def overflow_dump_def accept_all_def
      uwatec_smart_extract_loop.simps uwatec_header_def array_uint32_le_def)

subsection \<open>Socket read\<close>

lemma read_loop_interrupted:
  assumes "nbytes < sz" and "interrupted (dc_socket_read_tvt socket) (env k)"
  shows "dc_socket_read_loop socket env sz k nbytes = dc_socket_read_loop socket env sz (k + 1) nbytes"
  using assms
  by (subst dc_socket_read_loop.simps)
     (auto simp: interrupted_def wait_ready_def split: option.splits select_result.splits)

lemma read_loop_moved:
  assumes "nbytes < sz" and "moved (dc_socket_read_tvt socket) (env k) > 0"
  shows "dc_socket_read_loop socket env sz k nbytes
     = dc_socket_read_loop socket env sz (k + 1) (nbytes + moved (dc_socket_read_tvt socket) (env k))"
  using assms
  by (subst dc_socket_read_loop.simps)
     (auto simp: moved_def wait_ready_def
       split: option.splits select_result.splits xfer_result.splits if_splits)

lemma read_loop_short_stop:
  assumes "nbytes < sz" and "short_stop (dc_socket_read_tvt socket) (env k)"
  shows "dc_socket_read_loop socket env sz k nbytes = Some (DC_STATUS_TIMEOUT, nbytes)"
  using assms
  by (subst dc_socket_read_loop.simps)
     (auto simp: short_stop_def wait_ready_def wait_expired_def dc_socket_finish_def
       split: option.splits select_result.splits)

lemma interrupted_moves_nothing: "interrupted tv e \<Longrightarrow> moved tv e = 0"
  by (auto simp: interrupted_def moved_def wait_ready_def)

lemma read_loop_run:
  assumes "\<forall>i. k \<le> i \<and> i < j \<longrightarrow> interrupted (dc_socket_read_tvt socket) (env i)
              \<or> moved (dc_socket_read_tvt socket) (env i) > 0"
    and "short_stop (dc_socket_read_tvt socket) (env j)"
    and "nbytes + (\<Sum>i = k..<j. moved (dc_socket_read_tvt socket) (env i)) < sz"
    and "k \<le> j"
  shows "dc_socket_read_loop socket env sz k nbytes
     = Some (DC_STATUS_TIMEOUT, nbytes + (\<Sum>i = k..<j. moved (dc_socket_read_tvt socket) (env i)))"
  using assms
proof (induction "j - k" arbitrary: k nbytes)
  case 0
  then have "k = j" by simp
  with 0 show ?case by (simp add: read_loop_short_stop)
next
  case (Suc d)
  let ?tv = "dc_socket_read_tvt socket"
  from Suc.hyps Suc.prems have kj: "k < j" by simp
  then have split: "(\<Sum>i = k..<j. moved ?tv (env i)) = moved ?tv (env k) + (\<Sum>i = k + 1..<j. moved ?tv (env i))"
    by (simp add: sum.atLeast_Suc_lessThan)
  with Suc.prems have small: "nbytes < sz" by simp
  have step: "dc_socket_read_loop socket env sz k nbytes
      = dc_socket_read_loop socket env sz (k + 1) (nbytes + moved ?tv (env k))"
  proof (cases "interrupted ?tv (env k)")
    case True
    then show ?thesis
      using read_loop_interrupted [of nbytes sz socket env k] small
      by (simp add: interrupted_moves_nothing)
  next
    case False
    with Suc.prems(1) kj have "moved ?tv (env k) > 0" by auto
    then show ?thesis using read_loop_moved [of nbytes sz socket env k] small by simp
  qed
  have "dc_socket_read_loop socket env sz (k + 1) (nbytes + moved ?tv (env k))
      = Some (DC_STATUS_TIMEOUT, nbytes + moved ?tv (env k) + (\<Sum>i = k + 1..<j. moved ?tv (env i)))"
    using Suc.hyps Suc.prems kj split by (intro Suc.hyps(1)) auto
  with step split show ?case by (simp add: add.assoc)
qed

text \<open>Claim C8. Let the iterations before number \<open>j\<close> each be interrupted (an interrupted
  wait, or an interrupted or would-block receive) or move a positive number of bytes, fewer
  than \<open>sz\<close> in all, and let the wait of iteration \<open>j\<close> expire or its receive return zero
  bytes. Then the read returns Timeout and reports the bytes moved: the interrupted
  iterations leave no trace in the result. Moreover an interrupted iteration at any point of
  a read that is short of \<open>sz\<close> is followed by the next iteration with the same count.\<close>

theorem socket_read_short_is_timeout:
  "((\<forall>i<j. interrupted (dc_socket_read_tvt socket) (env i)
              \<or> moved (dc_socket_read_tvt socket) (env i) > 0)
     \<and> short_stop (dc_socket_read_tvt socket) (env j)
     \<and> (\<Sum>i<j. moved (dc_socket_read_tvt socket) (env i)) < sz
     \<longrightarrow> dc_socket_read socket env sz
           = Some (DC_STATUS_TIMEOUT, \<Sum>i<j. moved (dc_socket_read_tvt socket) (env i)))
   \<and> (nbytes < sz \<and> interrupted (dc_socket_read_tvt socket) (env k)
     \<longrightarrow> dc_socket_read_loop socket env sz k nbytes
           = dc_socket_read_loop socket env sz (k + 1) nbytes)"
proof (intro conjI impI)
  assume a: "(\<forall>i<j. interrupted (dc_socket_read_tvt socket) (env i)
              \<or> moved (dc_socket_read_tvt socket) (env i) > 0)
     \<and> short_stop (dc_socket_read_tvt socket) (env j)
     \<and> (\<Sum>i<j. moved (dc_socket_read_tvt socket) (env i)) < sz"
  have "dc_socket_read_loop socket env sz 0 0
      = Some (DC_STATUS_TIMEOUT, 0 + (\<Sum>i = 0..<j. moved (dc_socket_read_tvt socket) (env i)))"
    using a by (intro read_loop_run) (auto simp: atLeast0LessThan)
  then show "dc_socket_read socket env sz
      = Some (DC_STATUS_TIMEOUT, \<Sum>i<j. moved (dc_socket_read_tvt socket) (env i))"
    by (simp add: dc_socket_read_def atLeast0LessThan)
next
  assume "nbytes < sz \<and> interrupted (dc_socket_read_tvt socket) (env k)"
  then show "dc_socket_read_loop socket env sz k nbytes
      = dc_socket_read_loop socket env sz (k + 1) nbytes"
    by (simp add: read_loop_interrupted)
qed

theorem socket_read_short_is_timeout_witness:
  "dc_socket_read socket_1s stalling_peer 8 = Some (DC_STATUS_TIMEOUT, 3)
   \<and> dc_socket_read_loop socket_1s stalling_peer 8 0 0
       = dc_socket_read_loop socket_1s stalling_peer 8 1 0"
proof -
  have tv: "dc_socket_read_tvt socket_1s = Some (1, 0)"
    by (simp add: dc_socket_read_tvt_def socket_1s_def)
  have run: "\<forall>i<3. interrupted (Some (1, 0)) (stalling_peer i) \<or> moved (Some (1, 0)) (stalling_peer i) > 0"
    by (simp add: numeral_3_eq_3 All_less_Suc interrupted_def moved_def wait_ready_def
        stalling_peer_def)
  have stop: "short_stop (Some (1, 0)) (stalling_peer 3)"
    by (simp add: short_stop_def wait_expired_def stalling_peer_def)
  have total: "(\<Sum>i<3. moved (Some (1, 0)) (stalling_peer i)) = 3"
    by (simp add: numeral_3_eq_3 lessThan_Suc moved_def wait_ready_def stalling_peer_def)
  have first: "interrupted (Some (1, 0)) (stalling_peer 0)"
    by (simp add: interrupted_def stalling_peer_def)
  show ?thesis
    using socket_read_short_is_timeout [of 3 socket_1s stalling_peer 8 0 0] run stop total first
    by (simp add: tv)
qed

subsection \<open>Bounds of the retry and transfer loops\<close>

lemma transfer_attempts_bound:
  "snd (snd (cressi_leonardo_transfer_loop m packet n)) \<le> max (n + 1) (m + 1)"
proof (induction m packet n rule: cressi_leonardo_transfer_loop.induct)
  case (1 maxretries packet nretries)
  show ?case
  proof (cases "fst (packet nretries) \<noteq> DC_STATUS_SUCCESS
      \<and> \<not> (fst (packet nretries) \<noteq> DC_STATUS_PROTOCOL \<and> fst (packet nretries) \<noteq> DC_STATUS_TIMEOUT)
      \<and> \<not> maxretries \<le> nretries")
    case True
    then have "snd (snd (cressi_leonardo_transfer_loop maxretries packet (nretries + 1)))
        \<le> max (nretries + 1 + 1) (maxretries + 1)"
      by (intro 1) (auto simp: prod_eq_iff)
    moreover have "cressi_leonardo_transfer_loop maxretries packet nretries
        = cressi_leonardo_transfer_loop maxretries packet (nretries + 1)"
      using True by (intro transfer_loop_retry) auto
    ultimately show ?thesis using True by auto
  next
    case False
    then show ?thesis
      by (subst cressi_leonardo_transfer_loop.simps) (auto split: prod.splits)
  qed
qed

subsection \<open>Reading a memory image\<close>

lemma length_image_of: "length (image_of bytes) = 32000"
  by (simp add: image_of_def)

lemma nth_image_of: "i < 32000 \<Longrightarrow> image_of bytes ! i = image_byte bytes i"
  by (simp add: image_of_def)

lemma take_drop_image_of:
  "off + n \<le> 32000 \<Longrightarrow> take n (drop off (image_of bytes)) = map (image_byte bytes) [off..<off + n]"
  by (simp add: image_of_def take_map drop_map drop_upt take_upt)

lemmas image_simps = length_image_of nth_image_of take_drop_image_of image_byte_def

lemmas cressi_consts = SZ_MEMORY_def RB_LOGBOOK_BEGIN_def RB_LOGBOOK_END_def RB_LOGBOOK_SIZE_def
  RB_LOGBOOK_COUNT_def RB_PROFILE_BEGIN_def RB_PROFILE_END_def cressi_fingerprint_size_def

subsection \<open>One iteration of the logbook walk\<close>

lemma walk_done:
  "\<not> i < count \<Longrightarrow>
     cressi_leonardo_walk device data callback latest count i previous remaining calls
       = (Returned DC_STATUS_SUCCESS, calls)"
  by (subst cressi_leonardo_walk.simps) simp

lemma walk_bad_pointers:
  "i < count \<Longrightarrow> \<not> pointers_ok data (walk_idx latest i) \<Longrightarrow>
     cressi_leonardo_walk device data callback latest count i previous remaining calls
       = (Returned DC_STATUS_DATAFORMAT, calls)"
  by (subst cressi_leonardo_walk.simps)
     (auto simp: pointers_ok_def slot_header_def slot_footer_def Let_def)

lemma walk_discontinuous:
  "i < count \<Longrightarrow> previous \<noteq> 0 \<Longrightarrow> previous \<noteq> slot_footer data (walk_idx latest i) + 2 \<Longrightarrow>
     cressi_leonardo_walk device data callback latest count i previous remaining calls
       = (Returned DC_STATUS_DATAFORMAT, calls)"
  by (subst cressi_leonardo_walk.simps) (simp add: slot_footer_def Let_def)

lemma walk_fingerprint:
  "i < count \<Longrightarrow> pointers_ok data (walk_idx latest i) \<Longrightarrow>
   previous = 0 \<or> previous = slot_footer data (walk_idx latest i) + 2 \<Longrightarrow>
   fingerprint_match device data (walk_idx latest i) \<Longrightarrow>
     cressi_leonardo_walk device data callback latest count i previous remaining calls
       = (Returned DC_STATUS_SUCCESS, calls)"
  by (subst cressi_leonardo_walk.simps)
     (auto simp: pointers_ok_def slot_header_def slot_footer_def Let_def)

lemma walk_no_capacity:
  assumes "i < count" and "reaches_copy device data (walk_idx latest i) previous"
    and "\<not> has_capacity remaining data (walk_idx latest i)"
  shows "cressi_leonardo_walk device data callback latest count i previous remaining calls
     = (case callback of
          None \<Rightarrow> cressi_leonardo_walk device data callback latest count (i + 1)
                    (slot_header data (walk_idx latest i)) 0 calls
        | Some f \<Rightarrow>
            if f calls (entry_call data (walk_idx latest i))
              then cressi_leonardo_walk device data callback latest count (i + 1)
                     (slot_header data (walk_idx latest i)) 0
                     (calls @ [entry_call data (walk_idx latest i)])
            else (Returned DC_STATUS_SUCCESS, calls @ [entry_call data (walk_idx latest i)]))"
  using assms
  by (subst cressi_leonardo_walk.simps)
     (auto simp: reaches_copy_def pointers_ok_def has_capacity_def slot_length_def
        slot_header_def slot_footer_def entry_call_def Let_def split: option.splits)

lemma walk_echo_mismatch:
  assumes "i < count" and "reaches_copy device data (walk_idx latest i) previous"
    and "has_capacity remaining data (walk_idx latest i)"
    and "\<not> profile_echo data (walk_idx latest i)"
  shows "cressi_leonardo_walk device data callback latest count i previous remaining calls
     = (Returned DC_STATUS_DATAFORMAT, calls)"
  using assms
  by (subst cressi_leonardo_walk.simps)
     (auto simp: reaches_copy_def pointers_ok_def has_capacity_def slot_length_def
        profile_echo_def slot_header_def slot_footer_def Let_def)

lemma walk_undefined:
  assumes "i < count" and "reaches_copy device data (walk_idx latest i) previous"
    and "has_capacity remaining data (walk_idx latest i)"
    and "profile_echo data (walk_idx latest i)"
    and "slot_profile data (walk_idx latest i) = None"
  shows "cressi_leonardo_walk device data callback latest count i previous remaining calls
     = (Undefined, calls)"
  using assms
  by (subst cressi_leonardo_walk.simps)
     (auto simp: reaches_copy_def pointers_ok_def has_capacity_def slot_length_def
        profile_echo_def slot_profile_def slot_header_def slot_footer_def Let_def)

lemma walk_profile:
  assumes "i < count" and "reaches_copy device data (walk_idx latest i) previous"
    and "has_capacity remaining data (walk_idx latest i)"
    and "profile_echo data (walk_idx latest i)"
    and "slot_profile data (walk_idx latest i) = Some profile"
  shows "cressi_leonardo_walk device data callback latest count i previous remaining calls
     = (case callback of
          None \<Rightarrow> cressi_leonardo_walk device data callback latest count (i + 1)
                    (slot_header data (walk_idx latest i))
                    (remaining - (slot_length data (walk_idx latest i) + 4)) calls
        | Some f \<Rightarrow>
            if f calls (profile_call data (walk_idx latest i) profile)
              then cressi_leonardo_walk device data callback latest count (i + 1)
                     (slot_header data (walk_idx latest i))
                     (remaining - (slot_length data (walk_idx latest i) + 4))
                     (calls @ [profile_call data (walk_idx latest i) profile])
            else (Returned DC_STATUS_SUCCESS,
                  calls @ [profile_call data (walk_idx latest i) profile]))"
  using assms
  by (subst cressi_leonardo_walk.simps)
     (auto simp: reaches_copy_def pointers_ok_def has_capacity_def slot_length_def
        profile_echo_def slot_profile_def profile_call_def slot_header_def slot_footer_def
        Let_def split: option.splits)

subsection \<open>Evaluating the extractor on an image\<close>

lemma not_isequal_first:
  "off < length data \<Longrightarrow> 0 < n \<Longrightarrow> data ! off \<noteq> v \<Longrightarrow> \<not> array_isequal data off n v"
  by (cases n) (auto simp: array_isequal_def take_Suc hd_drop_conv_nth)

lemma image_byte_blank:
  "list_all (\<lambda>(k, b). k \<noteq> i) bytes \<Longrightarrow> image_byte bytes i = 0xFF"
  by (induction bytes) (auto simp: image_byte_def)

lemma isequal_image_blank:
  assumes "list_all (\<lambda>(k, b). k < off \<or> off + n \<le> k) bytes" and "off + n \<le> 32000"
  shows "array_isequal (image_of bytes) off n 0xFF"
proof -
  have "image_byte bytes i = 0xFF" if "off \<le> i" "i < off + n" for i
    using assms(1) that by (intro image_byte_blank) (auto simp: list_all_iff)
  then show ?thesis
    using assms(2) by (auto simp: array_isequal_def take_drop_image_of list_all_iff)
qed

lemma locate_step:
  "i < RB_LOGBOOK_COUNT \<Longrightarrow> \<not> array_isequal data (logbook_offset i) RB_LOGBOOK_SIZE 0xFF \<Longrightarrow>
   slot_counter data i \<noteq> 0xFFFF \<Longrightarrow>
     cressi_leonardo_locate data i count latest maximum
       = (if slot_counter data i > maximum
            then cressi_leonardo_locate data (i + 1) (count + 1) i (slot_counter data i)
          else cressi_leonardo_locate data (i + 1) (count + 1) latest maximum)"
  by (subst cressi_leonardo_locate.simps) (simp add: logbook_offset_def slot_counter_def)

lemma locate_blank:
  "i < RB_LOGBOOK_COUNT \<Longrightarrow> array_isequal data (logbook_offset i) RB_LOGBOOK_SIZE 0xFF \<Longrightarrow>
     cressi_leonardo_locate data i count latest maximum = (count, latest)"
  by (subst cressi_leonardo_locate.simps) (simp add: logbook_offset_def)

lemmas slot_defs = slot_header_def slot_footer_def slot_counter_def slot_identifier_def
  logbook_offset_def array_uint16_le_def

lemma two_dives_slots:
  "slot_counter two_dives 0 = 1" "slot_header two_dives 0 = 0x1438" "slot_footer two_dives 0 = 0x143C"
  "slot_counter two_dives 1 = 2" "slot_header two_dives 1 = 0x143E" "slot_footer two_dives 1 = 0x1442"
  by (simp_all add: slot_defs two_dives_def two_dives_bytes_def image_simps cressi_consts)

lemma two_dives_locate: "cressi_leonardo_locate two_dives 0 0 0 0 = (2, 1)"
proof -
  have w0: "\<not> array_isequal two_dives (logbook_offset 0) RB_LOGBOOK_SIZE 0xFF"
    by (rule not_isequal_first)
       (simp_all add: logbook_offset_def two_dives_def two_dives_bytes_def image_simps cressi_consts)
  have w1: "\<not> array_isequal two_dives (logbook_offset 1) RB_LOGBOOK_SIZE 0xFF"
    by (rule not_isequal_first)
       (simp_all add: logbook_offset_def two_dives_def two_dives_bytes_def image_simps cressi_consts)
  have b2: "array_isequal two_dives (logbook_offset 2) RB_LOGBOOK_SIZE 0xFF"
    unfolding two_dives_def
    by (rule isequal_image_blank)
       (simp_all add: logbook_offset_def two_dives_bytes_def cressi_consts)
  show ?thesis
    using locate_step [of 0 two_dives 0 0 0] locate_step [of 1 two_dives 1 0 1]
      locate_blank [of 2 two_dives 2 1 2] w0 w1 b2 two_dives_slots
    by (simp del: One_nat_def add: RB_LOGBOOK_COUNT_def RB_LOGBOOK_END_def RB_LOGBOOK_BEGIN_def
        RB_LOGBOOK_SIZE_def)
qed

subsection \<open>The records of a walk\<close>

lemma walk_idx_less: "walk_idx latest i < RB_LOGBOOK_COUNT"
  by (simp add: walk_idx_def RB_LOGBOOK_COUNT_def RB_LOGBOOK_END_def RB_LOGBOOK_BEGIN_def
      RB_LOGBOOK_SIZE_def)

lemma logbook_entry_in_image:
  assumes "SZ_MEMORY \<le> length data" and "idx < RB_LOGBOOK_COUNT"
  shows "logbook_offset idx + RB_LOGBOOK_SIZE \<le> length data"
proof -
  from assms(2) have "idx \<le> 59"
    by (simp add: RB_LOGBOOK_COUNT_def RB_LOGBOOK_END_def RB_LOGBOOK_BEGIN_def RB_LOGBOOK_SIZE_def)
  then have "logbook_offset idx + RB_LOGBOOK_SIZE \<le> 32000"
    by (simp add: logbook_offset_def RB_LOGBOOK_BEGIN_def RB_LOGBOOK_SIZE_def)
  with assms(1) show ?thesis by (simp add: SZ_MEMORY_def)
qed

lemma length_logbook_entry:
  "SZ_MEMORY \<le> length data \<Longrightarrow> idx < RB_LOGBOOK_COUNT \<Longrightarrow>
     length (logbook_entry data idx) = RB_LOGBOOK_SIZE"
  using logbook_entry_in_image [of data idx] by (simp add: logbook_entry_def)

lemma call_entry_entry_call:
  "SZ_MEMORY \<le> length data \<Longrightarrow> idx < RB_LOGBOOK_COUNT \<Longrightarrow>
     call_entry (entry_call data idx) = logbook_entry data idx"
  by (simp add: call_entry_def entry_call_def length_logbook_entry)

lemma call_entry_profile_call:
  "SZ_MEMORY \<le> length data \<Longrightarrow> idx < RB_LOGBOOK_COUNT \<Longrightarrow>
     call_entry (profile_call data idx profile) = logbook_entry data idx"
  by (simp add: call_entry_def profile_call_def length_logbook_entry)

lemma reaches_copy_no_barrier:
  "reaches_copy device data idx previous \<Longrightarrow> \<not> walk_barrier device data idx"
  by (simp add: reaches_copy_def walk_barrier_def)

text \<open>What an iteration does: it ends the walk with the calls made so far (with Success
  only at a fingerprint match); or it makes one call for its slot and then ends the walk with
  Success, or goes on to the next iteration with the header of its slot as the previous
  pointer.\<close>

lemma walk_iteration:
  assumes "i < count" and "SZ_MEMORY \<le> length data"
  obtains
    (stop) st where
      "cressi_leonardo_walk device data (Some f) latest count i previous remaining calls = (st, calls)"
      "st = Returned DC_STATUS_SUCCESS \<longrightarrow> fingerprint_match device data (walk_idx latest i)"
  | (final) c where
      "cressi_leonardo_walk device data (Some f) latest count i previous remaining calls
         = (Returned DC_STATUS_SUCCESS, calls @ [c])"
      "call_entry c = logbook_entry data (walk_idx latest i)"
      "reaches_copy device data (walk_idx latest i) previous" "\<not> f calls c"
  | (continue) c remaining' where
      "cressi_leonardo_walk device data (Some f) latest count i previous remaining calls
         = cressi_leonardo_walk device data (Some f) latest count (i + 1)
             (slot_header data (walk_idx latest i)) remaining' (calls @ [c])"
      "call_entry c = logbook_entry data (walk_idx latest i)"
      "reaches_copy device data (walk_idx latest i) previous" "f calls c"
proof -
  let ?idx = "walk_idx latest i"
  let ?walk = "cressi_leonardo_walk device data (Some f) latest count i previous remaining calls"
  note entry = call_entry_entry_call [OF assms(2) walk_idx_less]
    call_entry_profile_call [OF assms(2) walk_idx_less]
  show thesis
  proof (cases "reaches_copy device data ?idx previous")
    case False
    then consider "\<not> pointers_ok data ?idx"
      | "pointers_ok data ?idx" "previous \<noteq> 0" "previous \<noteq> slot_footer data ?idx + 2"
      | "pointers_ok data ?idx" "previous = 0 \<or> previous = slot_footer data ?idx + 2"
        "fingerprint_match device data ?idx"
      by (auto simp: reaches_copy_def)
    then show thesis
    proof cases
      case 1
      then have "?walk = (Returned DC_STATUS_DATAFORMAT, calls)"
        using assms(1) by (simp add: walk_bad_pointers)
      then show thesis by (rule stop) simp
    next
      case 2
      then have "?walk = (Returned DC_STATUS_DATAFORMAT, calls)"
        using assms(1) by (simp add: walk_discontinuous)
      then show thesis by (rule stop) simp
    next
      case 3
      then have "?walk = (Returned DC_STATUS_SUCCESS, calls)"
        using assms(1) by (simp add: walk_fingerprint)
      then show thesis by (rule stop) (simp add: 3)
    qed
  next
    case reach: True
    show thesis
    proof (cases "has_capacity remaining data ?idx")
      case False
      note step = walk_no_capacity [OF assms(1) reach False, of "Some f" calls]
      show thesis
      proof (cases "f calls (entry_call data ?idx)")
        case True
        with step show thesis using reach by (intro continue [where c = "entry_call data ?idx" and remaining' = 0]) (simp_all add: entry)
      next
        case False
        with step show thesis using reach by (intro final [where c = "entry_call data ?idx"]) (simp_all add: entry)
      qed
    next
      case cap: True
      show thesis
      proof (cases "profile_echo data ?idx")
        case False
        then have "?walk = (Returned DC_STATUS_DATAFORMAT, calls)"
          using assms(1) reach cap by (simp add: walk_echo_mismatch)
        then show thesis by (rule stop) simp
      next
        case echo: True
        show thesis
        proof (cases "slot_profile data ?idx")
          case None
          then have "?walk = (Undefined, calls)"
            using assms(1) reach cap echo by (simp add: walk_undefined)
          then show thesis by (rule stop) simp
        next
          case (Some profile)
          note step = walk_profile [OF assms(1) reach cap echo Some, of "Some f" calls]
          show thesis
          proof (cases "f calls (profile_call data ?idx profile)")
            case True
            with step show thesis using reach
              by (intro continue [where c = "profile_call data ?idx profile"
                    and remaining' = "remaining - (slot_length data ?idx + 4)"])
                 (simp_all add: entry)
          next
            case False
            with step show thesis using reach
              by (intro final [where c = "profile_call data ?idx profile"]) (simp_all add: entry)
          qed
        qed
      qed
    qed
  qed
qed

lemma walk_shape:
  assumes "SZ_MEMORY \<le> length data"
  shows "\<exists>new. snd (cressi_leonardo_walk device data (Some f) latest count i previous remaining calls)
            = calls @ new
      \<and> map call_entry new = map (\<lambda>j. logbook_entry data (walk_idx latest j)) [i..<i + length new]
      \<and> i + length new \<le> max i count
      \<and> (\<forall>j. i \<le> j \<and> j < count \<and> walk_barrier device data (walk_idx latest j)
            \<longrightarrow> i + length new \<le> j)"
proof (induction "count - i" arbitrary: i previous remaining calls)
  case 0
  then have "cressi_leonardo_walk device data (Some f) latest count i previous remaining calls
      = (Returned DC_STATUS_SUCCESS, calls)"
    by (simp add: walk_done)
  then show ?case by simp
next
  case (Suc d)
  then have less: "i < count" by simp
  from less assms show ?case
  proof (cases rule: walk_iteration [where device = device and f = f and latest = latest
        and previous = previous and remaining = remaining and calls = calls])
    case (stop st)
    then show ?thesis by simp
  next
    case (final c)
    have "i + 1 \<le> j" if "i \<le> j" "walk_barrier device data (walk_idx latest j)" for j
      using that reaches_copy_no_barrier [OF final(3)] by (cases "j = i") auto
    with final less show ?thesis by (intro exI [of _ "[c]"]) auto
  next
    case (continue c remaining')
    from Suc.hyps(2) have "d = count - (i + 1)" by simp
    from Suc.hyps(1) [OF this, of "slot_header data (walk_idx latest i)" remaining' "calls @ [c]"]
    obtain new where new:
      "snd (cressi_leonardo_walk device data (Some f) latest count (i + 1)
             (slot_header data (walk_idx latest i)) remaining' (calls @ [c])) = (calls @ [c]) @ new"
      "map call_entry new = map (\<lambda>j. logbook_entry data (walk_idx latest j)) [i + 1..<i + 1 + length new]"
      "i + 1 + length new \<le> max (i + 1) count"
      "\<forall>j. i + 1 \<le> j \<and> j < count \<and> walk_barrier device data (walk_idx latest j)
            \<longrightarrow> i + 1 + length new \<le> j"
      by blast
    have upt: "[i..<i + length (c # new)] = i # [i + 1..<i + 1 + length new]"
      using upt_conv_Cons [of i "i + 1 + length new"] by simp
    have bar: "i + length (c # new) \<le> j"
      if "i \<le> j" "j < count" "walk_barrier device data (walk_idx latest j)" for j
    proof -
      from that reaches_copy_no_barrier [OF continue(3)] have "i + 1 \<le> j" by (cases "j = i") auto
      with new(4) that show ?thesis by simp
    qed
    show ?thesis
    proof (intro exI [of _ "c # new"] conjI allI impI)
      show "snd (cressi_leonardo_walk device data (Some f) latest count i previous remaining calls)
          = calls @ c # new"
        using continue(1) new(1) by simp
      show "map call_entry (c # new)
          = map (\<lambda>j. logbook_entry data (walk_idx latest j)) [i..<i + length (c # new)]"
        unfolding upt using continue(2) new(2) by simp
      show "i + length (c # new) \<le> max i count"
        using new(3) less by simp
      show "i + length (c # new) \<le> j"
        if "i \<le> j \<and> j < count \<and> walk_barrier device data (walk_idx latest j)" for j
        using that bar by blast
    qed
  qed
qed

lemma walk_null_callback:
  "snd (cressi_leonardo_walk device data None latest count i previous remaining calls) = calls"
  apply (induction device data "None :: dc_dive_callback option" latest count i previous remaining calls
      rule: cressi_leonardo_walk.induct)
  apply (subst cressi_leonardo_walk.simps)
  apply (auto simp: Let_def split: option.splits)
  done

lemma fingerprint_match_Some:
  "fingerprint_match (Some d) data idx = (slot_identifier data idx = fingerprint d)"
  by (simp add: fingerprint_match_def slot_identifier_def)

lemma fingerprint_new: "fingerprint cressi_leonardo_device_new = [0, 0, 0, 0, 0]"
  by (simp add: cressi_leonardo_device_new_def cressi_fingerprint_size_def numeral_eq_Suc)

lemmas image_defs = two_dives_def two_dives_bytes_def dives_5_7_6_by_number_def
  dives_5_7_6_by_slot_def three_profiles_def

lemma two_dives_identifiers:
  "slot_identifier two_dives 0 = [0x0E, 0x01, 0x01, 0x0A, 0x00]"
  "slot_identifier two_dives 1 = [0x0E, 0x01, 0x02, 0x0B, 0x1E]"
  by (simp_all add: slot_defs image_defs image_simps cressi_consts)

lemma two_dives_profiles:
  "profile_echo two_dives 0" "slot_profile two_dives 0 = Some [0x11, 0x22]"
  "profile_echo two_dives 1" "slot_profile two_dives 1 = Some [0x33, 0x44]"
  "slot_length two_dives 0 = 2" "slot_length two_dives 1 = 2"
  using two_dives_slots
  by (simp_all add: profile_echo_def slot_profile_def slot_length_def copy_profile_def
      memcpy_from_def RB_PROFILE_DISTANCE_def ringbuffer_distance_def
      array_uint16_le_def two_dives_def two_dives_bytes_def image_simps cressi_consts)

subsection \<open>The walk on the image of two dives\<close>

lemma walk_idx_1: "walk_idx 1 0 = 1" "walk_idx 1 1 = 0" "walk_idx 1 2 = 59"
  by (simp_all add: walk_idx_def cressi_consts)

lemma two_dives_reaches:
  "reaches_copy (Some cressi_leonardo_device_new) two_dives 1 0"
  "reaches_copy (Some cressi_leonardo_device_new) two_dives 0 0x143E"
  using two_dives_slots two_dives_identifiers
  by (simp_all add: reaches_copy_def pointers_ok_def fingerprint_match_Some fingerprint_new
      cressi_consts)

subsection \<open>Continuity of the profiles\<close>

lemma pointers_ok_header_nonzero: "pointers_ok data idx \<Longrightarrow> slot_header data idx \<noteq> 0"
  by (auto simp: pointers_ok_def RB_PROFILE_BEGIN_def)

lemma walk_mismatch:
  assumes "i < count" and "previous \<noteq> 0"
    and "previous \<noteq> slot_footer data (walk_idx latest i) + 2"
  shows "cressi_leonardo_walk device data callback latest count i previous remaining calls
      = (Returned DC_STATUS_DATAFORMAT, calls)"
proof (cases "pointers_ok data (walk_idx latest i)")
  case True
  with assms show ?thesis by (simp add: walk_discontinuous)
next
  case False
  with assms show ?thesis by (simp add: walk_bad_pointers)
qed

text \<open>Claim C2, as the code has it. The pointer kept as \<open>previous\<close> is the header pointer of
  the dive of the iteration before (the source assigns \<^verbatim>\<open>previous = header\<close>). In an iteration
  with a previous value (one that is not 0) that differs from the footer pointer of the
  current dive plus 2, the extraction returns DataFormat and does not call the callback for
  the current dive. So when the dive of iteration \<open>i\<close> passes the tests before the copy and
  its header pointer differs from the footer pointer of the dive of iteration \<open>i + 1\<close> plus 2,
  the walk from iteration \<open>i\<close> calls the callback at most for the dive of iteration \<open>i\<close>,
  and returns DataFormat if the callback let it continue.\<close>

theorem continuity_check:
  "(i < count \<and> previous \<noteq> 0 \<and> previous \<noteq> slot_footer data (walk_idx latest i) + 2 \<longrightarrow>
      cressi_leonardo_walk device data callback latest count i previous remaining calls
        = (Returned DC_STATUS_DATAFORMAT, calls))
   \<and> (i + 1 < count \<and> SZ_MEMORY \<le> length data
        \<and> reaches_copy device data (walk_idx latest i) previous
        \<and> slot_header data (walk_idx latest i) \<noteq> slot_footer data (walk_idx latest (i + 1)) + 2 \<longrightarrow>
      (\<exists>st new.
         cressi_leonardo_walk device data (Some f) latest count i previous remaining calls
           = (st, calls @ new)
         \<and> (new = [] \<or> (\<exists>c. new = [c] \<and> call_entry c = logbook_entry data (walk_idx latest i)
               \<and> (f calls c \<longrightarrow> st = Returned DC_STATUS_DATAFORMAT)))))"
proof (intro conjI impI)
  assume "i < count \<and> previous \<noteq> 0 \<and> previous \<noteq> slot_footer data (walk_idx latest i) + 2"
  then show "cressi_leonardo_walk device data callback latest count i previous remaining calls
        = (Returned DC_STATUS_DATAFORMAT, calls)"
    by (simp add: walk_mismatch)
next
  assume a: "i + 1 < count \<and> SZ_MEMORY \<le> length data
        \<and> reaches_copy device data (walk_idx latest i) previous
        \<and> slot_header data (walk_idx latest i) \<noteq> slot_footer data (walk_idx latest (i + 1)) + 2"
  then have less: "i < count" and size: "SZ_MEMORY \<le> length data" by simp_all
  from a have nonzero: "slot_header data (walk_idx latest i) \<noteq> 0"
    by (simp add: reaches_copy_def pointers_ok_header_nonzero)
  let ?walk = "cressi_leonardo_walk device data (Some f) latest count i previous remaining calls"
  from less size
  show "\<exists>st new. ?walk = (st, calls @ new)
         \<and> (new = [] \<or> (\<exists>c. new = [c] \<and> call_entry c = logbook_entry data (walk_idx latest i)
               \<and> (f calls c \<longrightarrow> st = Returned DC_STATUS_DATAFORMAT)))"
  proof (cases rule: walk_iteration [where device = device and f = f and latest = latest
        and previous = previous and remaining = remaining and calls = calls])
    case (stop st)
    then show ?thesis by (intro exI [of _ st] exI [of _ "[]"]) simp
  next
    case (final c)
    then show ?thesis
      by (intro exI [of _ "Returned DC_STATUS_SUCCESS"] exI [of _ "[c]"]) simp
  next
    case (continue c remaining')
    have "cressi_leonardo_walk device data (Some f) latest count (i + 1)
            (slot_header data (walk_idx latest i)) remaining' (calls @ [c])
        = (Returned DC_STATUS_DATAFORMAT, calls @ [c])"
      using a nonzero by (intro walk_mismatch) simp_all
    with continue show ?thesis
      by (intro exI [of _ "Returned DC_STATUS_DATAFORMAT"] exI [of _ "[c]"]) simp
  qed
qed

subsection \<open>The example images, slot by slot\<close>

lemma by_number_slots:
  "slot_counter dives_5_7_6_by_number 0 = 5" "slot_header dives_5_7_6_by_number 0 = 0x1438"
  "slot_footer dives_5_7_6_by_number 0 = 0x143C"
  "slot_counter dives_5_7_6_by_number 1 = 7" "slot_header dives_5_7_6_by_number 1 = 0x1444"
  "slot_footer dives_5_7_6_by_number 1 = 0x1448"
  "slot_counter dives_5_7_6_by_number 2 = 6" "slot_header dives_5_7_6_by_number 2 = 0x143E"
  "slot_footer dives_5_7_6_by_number 2 = 0x1442"
  "slot_header dives_5_7_6_by_number 59 = 0xFFFF"
  by (simp_all add: slot_defs image_defs image_simps cressi_consts)

lemma by_slot_slots:
  "slot_counter dives_5_7_6_by_slot 0 = 5" "slot_header dives_5_7_6_by_slot 0 = 0x1438"
  "slot_footer dives_5_7_6_by_slot 0 = 0x143C"
  "slot_counter dives_5_7_6_by_slot 1 = 7" "slot_header dives_5_7_6_by_slot 1 = 0x143E"
  "slot_footer dives_5_7_6_by_slot 1 = 0x1442"
  "slot_counter dives_5_7_6_by_slot 2 = 6" "slot_header dives_5_7_6_by_slot 2 = 0x1444"
  "slot_footer dives_5_7_6_by_slot 2 = 0x1448"
  "slot_header dives_5_7_6_by_slot 59 = 0xFFFF"
  by (simp_all add: slot_defs image_defs image_simps cressi_consts)

lemma by_number_identifiers:
  "slot_identifier dives_5_7_6_by_number 0 = [0x0E, 0x01, 0x01, 0x0A, 0x00]"
  "slot_identifier dives_5_7_6_by_number 1 = [0x0E, 0x01, 0x03, 0x0C, 0x05]"
  by (simp_all add: slot_defs image_defs image_simps cressi_consts)

lemma by_slot_identifiers:
  "slot_identifier dives_5_7_6_by_slot 0 = [0x0E, 0x01, 0x01, 0x0A, 0x00]"
  "slot_identifier dives_5_7_6_by_slot 1 = [0x0E, 0x01, 0x03, 0x0C, 0x05]"
  by (simp_all add: slot_defs image_defs image_simps cressi_consts)

lemmas profile_defs = profile_echo_def slot_profile_def slot_length_def copy_profile_def
  memcpy_from_def RB_PROFILE_DISTANCE_def ringbuffer_distance_def array_uint16_le_def

lemma by_number_profiles:
  "profile_echo dives_5_7_6_by_number 1" "slot_profile dives_5_7_6_by_number 1 = Some [0x55, 0x66]"
  "slot_length dives_5_7_6_by_number 1 = 2"
  using by_number_slots
  by (simp_all add: profile_defs image_defs image_simps cressi_consts)

lemma by_slot_profiles:
  "profile_echo dives_5_7_6_by_slot 0" "slot_profile dives_5_7_6_by_slot 0 = Some [0x11, 0x22]"
  "slot_length dives_5_7_6_by_slot 0 = 2"
  "profile_echo dives_5_7_6_by_slot 1" "slot_profile dives_5_7_6_by_slot 1 = Some [0x33, 0x44]"
  "slot_length dives_5_7_6_by_slot 1 = 2"
  using by_slot_slots
  by (simp_all add: profile_defs image_defs image_simps cressi_consts)

lemma image_written:
  assumes "image_byte bytes (logbook_offset idx) \<noteq> 0xFF" and "idx < RB_LOGBOOK_COUNT"
  shows "\<not> array_isequal (image_of bytes) (logbook_offset idx) RB_LOGBOOK_SIZE 0xFF"
proof (rule not_isequal_first)
  from assms(2) have "idx \<le> 59" by (simp add: cressi_consts)
  then show "logbook_offset idx < length (image_of bytes)"
    by (simp add: length_image_of logbook_offset_def cressi_consts)
  then show "image_of bytes ! logbook_offset idx \<noteq> 0xFF"
    using assms(1) by (simp add: length_image_of nth_image_of)
qed (simp add: RB_LOGBOOK_SIZE_def)

lemma image_blank:
  assumes "list_all (\<lambda>(k, b). k < logbook_offset idx \<or> logbook_offset idx + RB_LOGBOOK_SIZE \<le> k) bytes"
    and "idx < RB_LOGBOOK_COUNT"
  shows "array_isequal (image_of bytes) (logbook_offset idx) RB_LOGBOOK_SIZE 0xFF"
proof (rule isequal_image_blank [OF assms(1)])
  from assms(2) have "idx \<le> 59" by (simp add: cressi_consts)
  then show "logbook_offset idx + RB_LOGBOOK_SIZE \<le> 32000"
    by (simp add: logbook_offset_def cressi_consts)
qed

lemma locate_three:
  assumes "\<not> array_isequal data (logbook_offset 0) RB_LOGBOOK_SIZE 0xFF"
    and "\<not> array_isequal data (logbook_offset 1) RB_LOGBOOK_SIZE 0xFF"
    and "\<not> array_isequal data (logbook_offset 2) RB_LOGBOOK_SIZE 0xFF"
    and "array_isequal data (logbook_offset 3) RB_LOGBOOK_SIZE 0xFF"
    and "slot_counter data 0 = 5" and "slot_counter data 1 = 7" and "slot_counter data 2 = 6"
  shows "cressi_leonardo_locate data 0 0 0 0 = (3, 1)"
  using locate_step [of 0 data 0 0 0] locate_step [of 1 data 1 0 5] locate_step [of 2 data 2 1 7]
    locate_blank [of 3 data 3 1 7] assms
  by (simp del: One_nat_def add: RB_LOGBOOK_COUNT_def RB_LOGBOOK_END_def RB_LOGBOOK_BEGIN_def
      RB_LOGBOOK_SIZE_def)

lemma by_number_locate: "cressi_leonardo_locate dives_5_7_6_by_number 0 0 0 0 = (3, 1)"
proof (rule locate_three)
  show "\<not> array_isequal dives_5_7_6_by_number (logbook_offset 0) RB_LOGBOOK_SIZE 0xFF"
    "\<not> array_isequal dives_5_7_6_by_number (logbook_offset 1) RB_LOGBOOK_SIZE 0xFF"
    "\<not> array_isequal dives_5_7_6_by_number (logbook_offset 2) RB_LOGBOOK_SIZE 0xFF"
    unfolding dives_5_7_6_by_number_def
    by (rule image_written; simp add: image_byte_def logbook_offset_def three_profiles_def cressi_consts)+
  show "array_isequal dives_5_7_6_by_number (logbook_offset 3) RB_LOGBOOK_SIZE 0xFF"
    unfolding dives_5_7_6_by_number_def
    by (rule image_blank) (simp_all add: logbook_offset_def three_profiles_def cressi_consts)
qed (simp_all del: One_nat_def add: by_number_slots)

lemma by_slot_locate: "cressi_leonardo_locate dives_5_7_6_by_slot 0 0 0 0 = (3, 1)"
proof (rule locate_three)
  show "\<not> array_isequal dives_5_7_6_by_slot (logbook_offset 0) RB_LOGBOOK_SIZE 0xFF"
    "\<not> array_isequal dives_5_7_6_by_slot (logbook_offset 1) RB_LOGBOOK_SIZE 0xFF"
    "\<not> array_isequal dives_5_7_6_by_slot (logbook_offset 2) RB_LOGBOOK_SIZE 0xFF"
    unfolding dives_5_7_6_by_slot_def
    by (rule image_written; simp add: image_byte_def logbook_offset_def three_profiles_def cressi_consts)+
  show "array_isequal dives_5_7_6_by_slot (logbook_offset 3) RB_LOGBOOK_SIZE 0xFF"
    unfolding dives_5_7_6_by_slot_def
    by (rule image_blank) (simp_all add: logbook_offset_def three_profiles_def cressi_consts)
qed (simp_all del: One_nat_def add: by_slot_slots)

lemma image_sizes:
  "SZ_MEMORY \<le> length two_dives" "SZ_MEMORY \<le> length dives_5_7_6_by_number"
  "SZ_MEMORY \<le> length dives_5_7_6_by_slot"
  "\<not> length two_dives < SZ_MEMORY" "\<not> length dives_5_7_6_by_number < SZ_MEMORY"
  "\<not> length dives_5_7_6_by_slot < SZ_MEMORY"
  by (simp_all add: image_defs length_image_of SZ_MEMORY_def)

lemma profile_capacity: "RB_PROFILE_END - RB_PROFILE_BEGIN = 26824"
  by (simp add: RB_PROFILE_END_def RB_PROFILE_BEGIN_def)

lemmas walk_eval = walk_idx_1 has_capacity_def continue_always_def

lemma two_dives_walk:
  "cressi_leonardo_walk (Some cressi_leonardo_device_new) two_dives (Some continue_always)
      1 2 0 0 26824 []
     = (Returned DC_STATUS_SUCCESS,
        [profile_call two_dives 1 [0x33, 0x44], profile_call two_dives 0 [0x11, 0x22]])"
proof -
  let ?dev = "Some cressi_leonardo_device_new"
  let ?walk = "cressi_leonardo_walk ?dev two_dives (Some continue_always) 1 2"
  have "?walk 0 0 26824 [] = ?walk 1 0x143E 26818 [profile_call two_dives 1 [0x33, 0x44]]"
    using walk_profile [of 0 2 ?dev two_dives 1 0 26824 "[0x33, 0x44]" "Some continue_always" "[]"]
      two_dives_reaches two_dives_slots two_dives_profiles
    by (simp del: One_nat_def add: walk_eval)
  also have "\<dots> = ?walk 2 0x1438 26812
      [profile_call two_dives 1 [0x33, 0x44], profile_call two_dives 0 [0x11, 0x22]]"
    using walk_profile [of 1 2 ?dev two_dives 1 "0x143E" 26818 "[0x11, 0x22]"
        "Some continue_always" "[profile_call two_dives 1 [0x33, 0x44]]"]
      two_dives_reaches two_dives_slots two_dives_profiles
    by (simp del: One_nat_def add: walk_eval)
  also have "\<dots> = (Returned DC_STATUS_SUCCESS,
      [profile_call two_dives 1 [0x33, 0x44], profile_call two_dives 0 [0x11, 0x22]])"
    by (simp add: walk_done)
  finally show ?thesis .
qed

text \<open>The claim fails as worded. In the second iteration on this image the footer pointer of
  the dive of the first iteration (0x1442) is not the footer pointer of the current dive
  plus 2 (0x143E), and yet the current dive is passed to the callback and the extraction
  succeeds: the pointer compared is the header of the first dive (0x143E).\<close>

theorem continuity_footer_counterexample:
  "cressi_leonardo_extract_dives (Some cressi_leonardo_device_new) two_dives (Some continue_always)
     = (Returned DC_STATUS_SUCCESS,
        [profile_call two_dives 1 [0x33, 0x44], profile_call two_dives 0 [0x11, 0x22]])
   \<and> slot_footer two_dives 1 \<noteq> slot_footer two_dives 0 + 2
   \<and> slot_header two_dives 1 = slot_footer two_dives 0 + 2"
  using two_dives_walk two_dives_slots
  by (simp del: One_nat_def
      add: cressi_leonardo_extract_dives_def image_sizes two_dives_locate profile_capacity)

lemma by_number_reaches:
  "reaches_copy (Some cressi_leonardo_device_new) dives_5_7_6_by_number 1 0"
  using by_number_slots by_number_identifiers
  by (simp_all add: reaches_copy_def pointers_ok_def fingerprint_match_Some fingerprint_new
      cressi_consts)

lemma by_slot_reaches:
  "reaches_copy (Some cressi_leonardo_device_new) dives_5_7_6_by_slot 1 0"
  "reaches_copy (Some cressi_leonardo_device_new) dives_5_7_6_by_slot 0 0x143E"
  "\<not> pointers_ok dives_5_7_6_by_slot 59"
  using by_slot_slots by_slot_identifiers
  by (simp_all add: reaches_copy_def pointers_ok_def fingerprint_match_Some fingerprint_new
      cressi_consts)

theorem continuity_check_witness:
  "cressi_leonardo_walk (Some cressi_leonardo_device_new) dives_5_7_6_by_number
      (Some continue_always) 1 3 1 0x1444 26818 [] = (Returned DC_STATUS_DATAFORMAT, [])
   \<and> (\<exists>st new.
        cressi_leonardo_walk (Some cressi_leonardo_device_new) dives_5_7_6_by_number
          (Some continue_always) 1 3 0 0 26824 [] = (st, new)
        \<and> (new = [] \<or> (\<exists>c. new = [c] \<and> call_entry c = logbook_entry dives_5_7_6_by_number 1
              \<and> st = Returned DC_STATUS_DATAFORMAT)))"
  using continuity_check [of 1 3 "0x1444" dives_5_7_6_by_number 1
      "Some cressi_leonardo_device_new" "Some continue_always" 26818 "[]" continue_always]
    continuity_check [of 0 3 0 dives_5_7_6_by_number 1
      "Some cressi_leonardo_device_new" "Some continue_always" 26824 "[]" continue_always]
    by_number_slots by_number_reaches image_sizes
  by (simp del: One_nat_def add: walk_eval)

subsection \<open>Three slots with the dive numbers 5, 7 and 6\<close>

lemma blank_bytes:
  assumes "array_isequal data off n 0xFF" and "off + n \<le> length data" and "k < n"
  shows "data ! (off + k) = 0xFF"
proof -
  from assms(2,3) have "take n (drop off data) ! k = data ! (off + k)" by simp
  moreover from assms(2,3) have "take n (drop off data) ! k \<in> set (take n (drop off data))"
    by (intro nth_mem) simp
  ultimately show ?thesis using assms(1) by (auto simp: array_isequal_def list_all_iff)
qed

lemma blank_slot:
  assumes "array_isequal data (logbook_offset idx) RB_LOGBOOK_SIZE 0xFF"
    and "SZ_MEMORY \<le> length data" and "idx < RB_LOGBOOK_COUNT"
  shows "slot_counter data idx = 0xFFFF" and "slot_header data idx = 0xFFFF"
proof -
  note bytes = blank_bytes [OF assms(1) logbook_entry_in_image [OF assms(2,3)]]
  have "data ! (logbook_offset idx) = 0xFF" "data ! (logbook_offset idx + 1) = 0xFF"
    "data ! (logbook_offset idx + 2) = 0xFF" "data ! (logbook_offset idx + 2 + 1) = 0xFF"
    using bytes [of 0] bytes [of 1] bytes [of 2] bytes [of 3]
    by (simp_all add: RB_LOGBOOK_SIZE_def numeral_3_eq_3)
  then show "slot_counter data idx = 0xFFFF" and "slot_header data idx = 0xFFFF"
    by (simp_all add: slot_counter_def slot_header_def array_uint16_le_def)
qed

lemma blank_slot_pointers:
  assumes "array_isequal data (logbook_offset idx) RB_LOGBOOK_SIZE 0xFF"
    and "SZ_MEMORY \<le> length data" and "idx < RB_LOGBOOK_COUNT"
  shows "\<not> pointers_ok data idx"
  using blank_slot(2) [OF assms]
  by (simp add: pointers_ok_def RB_PROFILE_END_def RB_PROFILE_BEGIN_def)

lemma call_counter_of_entry:
  assumes "call_entry c = logbook_entry data idx"
    and "SZ_MEMORY \<le> length data" and "idx < RB_LOGBOOK_COUNT"
  shows "call_counter c = slot_counter data idx"
proof -
  note inside = logbook_entry_in_image [OF assms(2,3)]
  have len: "length (take RB_LOGBOOK_SIZE (call_data c)) = RB_LOGBOOK_SIZE"
    using assms by (simp add: call_entry_def [symmetric] length_logbook_entry)
  have nth: "call_data c ! k = data ! (logbook_offset idx + k)" if "k < RB_LOGBOOK_SIZE" for k
  proof -
    have "call_data c ! k = take RB_LOGBOOK_SIZE (call_data c) ! k"
      using that by simp
    also have "\<dots> = logbook_entry data idx ! k"
      using assms(1) by (simp add: call_entry_def)
    also have "\<dots> = data ! (logbook_offset idx + k)"
      using that inside by (simp add: logbook_entry_def)
    finally show ?thesis .
  qed
  have "call_data c ! 0 = data ! logbook_offset idx"
    "call_data c ! 1 = data ! (logbook_offset idx + 1)"
    using nth [of 0] nth [of 1] by (simp_all add: RB_LOGBOOK_SIZE_def)
  then show ?thesis
    by (simp add: call_counter_def slot_counter_def array_uint16_le_def)
qed

lemma walk_success_complete:
  assumes "SZ_MEMORY \<le> length data" and "\<forall>calls c. f calls c"
    and "\<forall>j. i \<le> j \<and> j < count \<longrightarrow> \<not> fingerprint_match device data (walk_idx latest j)"
    and "fst (cressi_leonardo_walk device data (Some f) latest count i previous remaining calls)
           = Returned DC_STATUS_SUCCESS"
  shows "length (snd (cressi_leonardo_walk device data (Some f) latest count i previous remaining calls))
      = length calls + (count - i)"
  using assms(3,4)
proof (induction "count - i" arbitrary: i previous remaining calls)
  case 0
  then show ?case by (simp add: walk_done)
next
  case (Suc d)
  then have less: "i < count" by simp
  from less assms(1) show ?case
  proof (cases rule: walk_iteration [where device = device and f = f and latest = latest
        and previous = previous and remaining = remaining and calls = calls])
    case (stop st)
    with Suc.prems less show ?thesis by auto
  next
    case (final c)
    with assms(2) show ?thesis by simp
  next
    case (continue c remaining')
    have "length (snd (cressi_leonardo_walk device data (Some f) latest count (i + 1)
              (slot_header data (walk_idx latest i)) remaining' (calls @ [c])))
        = length (calls @ [c]) + (count - (i + 1))"
      using Suc.hyps(2) Suc.prems continue(1) by (intro Suc.hyps(1)) auto
    with continue(1) less show ?thesis by simp
  qed
qed

lemma walk_at_59:
  assumes "array_isequal data (logbook_offset 59) RB_LOGBOOK_SIZE 0xFF"
    and "SZ_MEMORY \<le> length data"
  shows "cressi_leonardo_walk device data callback 1 3 2 previous remaining calls
      = (Returned DC_STATUS_DATAFORMAT, calls)"
proof -
  have "\<not> pointers_ok data 59"
    using assms by (intro blank_slot_pointers) (simp_all add: cressi_consts)
  then show ?thesis
    using walk_bad_pointers [of 2 3 data 1 device callback previous remaining calls]
    by (simp del: One_nat_def add: walk_idx_1)
qed

text \<open>Claim C1, as the code has it. Let the image have the required size, the slots 0, 1
  and 2 carry the internal dive numbers 5, 7 and 6, and all later slots be never written.
  Then the scan finds three slots with the most recent one in slot 1, and the walk goes
  backward through the slot numbers: slot 1, slot 0, slot 59. The callback is invoked at
  most twice, first for the dive with number 7 and then for the dive with number 5, and never
  for the dive with number 6. The walk does not complete: when the callback always continues
  and no fingerprint matches slot 1 or slot 0, the extraction does not return Success (the
  never-written slot 59 fails the pointer test, if nothing fails before).\<close>

theorem dives_5_7_6_walk:
  assumes "SZ_MEMORY \<le> length data"
    and "slot_counter data 0 = 5 \<and> slot_counter data 1 = 7 \<and> slot_counter data 2 = 6"
    and "\<forall>idx. 3 \<le> idx \<and> idx < RB_LOGBOOK_COUNT \<longrightarrow>
           array_isequal data (logbook_offset idx) RB_LOGBOOK_SIZE 0xFF"
  shows "cressi_leonardo_locate data 0 0 0 0 = (3, 1)
     \<and> map call_counter (snd (cressi_leonardo_extract_dives device data callback))
         \<in> {[], [7], [7, 5]}
     \<and> ((\<forall>calls c. f calls c) \<and> \<not> fingerprint_match device data 1
          \<and> \<not> fingerprint_match device data 0 \<longrightarrow>
        fst (cressi_leonardo_extract_dives device data (Some f)) \<noteq> Returned DC_STATUS_SUCCESS)"
proof (intro conjI impI)
  note size = assms(1)
  have count: "(0::nat) < RB_LOGBOOK_COUNT" "(1::nat) < RB_LOGBOOK_COUNT" "(2::nat) < RB_LOGBOOK_COUNT"
    "(3::nat) < RB_LOGBOOK_COUNT" "(59::nat) < RB_LOGBOOK_COUNT"
    by (simp_all add: cressi_consts)
  have written: "\<not> array_isequal data (logbook_offset idx) RB_LOGBOOK_SIZE 0xFF"
    if "idx < RB_LOGBOOK_COUNT" "slot_counter data idx \<noteq> 0xFFFF" for idx
    using blank_slot(1) [OF _ size that(1)] that(2) by blast
  have blank3: "array_isequal data (logbook_offset 3) RB_LOGBOOK_SIZE 0xFF"
    and blank59: "array_isequal data (logbook_offset 59) RB_LOGBOOK_SIZE 0xFF"
    using assms(3) count by simp_all
  show locate: "cressi_leonardo_locate data 0 0 0 0 = (3, 1)"
    using assms(2) count by (intro locate_three written blank3) simp_all
  have run: "cressi_leonardo_extract_dives device data cb
      = cressi_leonardo_walk device data cb 1 3 0 0 26824 []" for cb
    using size by (simp add: cressi_leonardo_extract_dives_def locate profile_capacity)
  have barrier: "walk_barrier device data (walk_idx 1 2)"
    using blank_slot_pointers [OF blank59 size count(5)] by (simp del: One_nat_def add: walk_barrier_def walk_idx_1)
  show "map call_counter (snd (cressi_leonardo_extract_dives device data callback))
      \<in> {[], [7], [7, 5]}"
  proof (cases callback)
    case None
    then show ?thesis by (simp add: run walk_null_callback)
  next
    case (Some g)
    from walk_shape [OF size, of device g 1 3 0 0 26824 "[]"] obtain new where new:
      "snd (cressi_leonardo_walk device data (Some g) 1 3 0 0 26824 []) = new"
      "map call_entry new = map (\<lambda>j. logbook_entry data (walk_idx 1 j)) [0..<length new]"
      "\<forall>j. j < 3 \<and> walk_barrier device data (walk_idx 1 j) \<longrightarrow> length new \<le> j"
      by auto
    from new(3) barrier have "length new \<le> 2" by simp
    then consider "new = []" | a where "new = [a]" | a b where "new = [a, b]"
      by (cases new; cases "tl new"; cases "tl (tl new)") auto
    then show ?thesis
    proof cases
      case 1
      with new(1) Some show ?thesis by (simp add: run)
    next
      case 2
      with new(2) have "call_entry a = logbook_entry data 1" by (simp del: One_nat_def add: walk_idx_1)
      then have "call_counter a = 7"
        using call_counter_of_entry [OF _ size count(2), of a] assms(2)
        by (simp del: One_nat_def)
      with 2 new(1) Some show ?thesis by (simp add: run)
    next
      case 3
      with new(2) have "call_entry a = logbook_entry data 1" "call_entry b = logbook_entry data 0"
        by (simp_all del: One_nat_def add: walk_idx_1 upt_conv_Cons One_nat_def [symmetric])
      then have "call_counter a = 7" "call_counter b = 5"
        using call_counter_of_entry [OF _ size count(2), of a]
          call_counter_of_entry [OF _ size count(1), of b] assms(2)
        by (simp_all del: One_nat_def)
      with 3 new(1) Some show ?thesis by (simp add: run)
    qed
  qed
  assume a: "(\<forall>calls c. f calls c) \<and> \<not> fingerprint_match device data 1
      \<and> \<not> fingerprint_match device data 0"
  have second: "fst (cressi_leonardo_walk device data (Some f) 1 3 1 previous remaining calls)
      \<noteq> Returned DC_STATUS_SUCCESS" for previous remaining calls
  proof -
    have "(1::nat) < 3" by simp
    then show ?thesis using size
    proof (cases rule: walk_iteration [where device = device and f = f and latest = 1
          and previous = previous and remaining = remaining and calls = calls])
      case (stop st)
      with a show ?thesis by (auto simp del: One_nat_def simp add: walk_idx_1)
    next
      case (final c)
      with a show ?thesis by simp
    next
      case (continue c remaining')
      then show ?thesis using walk_at_59 [OF blank59 size] by (simp del: One_nat_def)
    qed
  qed
  have "(0::nat) < 3" by simp
  then have "fst (cressi_leonardo_walk device data (Some f) 1 3 0 0 26824 [])
      \<noteq> Returned DC_STATUS_SUCCESS"
    using size
  proof (cases rule: walk_iteration [where device = device and f = f and latest = 1
        and previous = 0 and remaining = 26824 and calls = "[]"])
    case (stop st)
    with a show ?thesis by (auto simp del: One_nat_def simp add: walk_idx_1)
  next
    case (final c)
    with a show ?thesis by simp
  next
    case (continue c remaining')
    then show ?thesis using second by (simp del: One_nat_def)
  qed
  then show "fst (cressi_leonardo_extract_dives device data (Some f)) \<noteq> Returned DC_STATUS_SUCCESS"
    by (simp add: run)
qed

lemma by_slot_blank:
  assumes "3 \<le> idx" and "idx < RB_LOGBOOK_COUNT"
  shows "array_isequal dives_5_7_6_by_slot (logbook_offset idx) RB_LOGBOOK_SIZE 0xFF"
proof -
  from assms(2) have "idx \<le> 59" by (simp add: cressi_consts)
  with assms(1) show ?thesis
    unfolding dives_5_7_6_by_slot_def
    by (intro image_blank assms(2))
       (simp add: logbook_offset_def three_profiles_def cressi_consts)
qed

lemma by_number_walk:
  "cressi_leonardo_walk (Some cressi_leonardo_device_new) dives_5_7_6_by_number
      (Some continue_always) 1 3 0 0 26824 []
     = (Returned DC_STATUS_DATAFORMAT, [profile_call dives_5_7_6_by_number 1 [0x55, 0x66]])"
proof -
  let ?dev = "Some cressi_leonardo_device_new"
  let ?walk = "cressi_leonardo_walk ?dev dives_5_7_6_by_number (Some continue_always) 1 3"
  have "?walk 0 0 26824 [] = ?walk 1 0x1444 26818 [profile_call dives_5_7_6_by_number 1 [0x55, 0x66]]"
    using walk_profile [of 0 3 ?dev dives_5_7_6_by_number 1 0 26824 "[0x55, 0x66]"
        "Some continue_always" "[]"]
      by_number_reaches by_number_slots by_number_profiles
    by (simp del: One_nat_def add: walk_eval)
  also have "\<dots> = (Returned DC_STATUS_DATAFORMAT, [profile_call dives_5_7_6_by_number 1 [0x55, 0x66]])"
    using walk_discontinuous [of 1 3 "0x1444" dives_5_7_6_by_number 1 ?dev "Some continue_always"
        26818 "[profile_call dives_5_7_6_by_number 1 [0x55, 0x66]]"] by_number_slots
    by (simp del: One_nat_def add: walk_eval)
  finally show ?thesis .
qed

lemma by_slot_walk:
  "cressi_leonardo_walk (Some cressi_leonardo_device_new) dives_5_7_6_by_slot
      (Some continue_always) 1 3 0 0 26824 []
     = (Returned DC_STATUS_DATAFORMAT,
        [profile_call dives_5_7_6_by_slot 1 [0x33, 0x44],
         profile_call dives_5_7_6_by_slot 0 [0x11, 0x22]])"
proof -
  let ?dev = "Some cressi_leonardo_device_new"
  let ?walk = "cressi_leonardo_walk ?dev dives_5_7_6_by_slot (Some continue_always) 1 3"
  let ?c1 = "profile_call dives_5_7_6_by_slot 1 [0x33, 0x44]"
  let ?c0 = "profile_call dives_5_7_6_by_slot 0 [0x11, 0x22]"
  have "?walk 0 0 26824 [] = ?walk 1 0x143E 26818 [?c1]"
    using walk_profile [of 0 3 ?dev dives_5_7_6_by_slot 1 0 26824 "[0x33, 0x44]"
        "Some continue_always" "[]"]
      by_slot_reaches by_slot_slots by_slot_profiles
    by (simp del: One_nat_def add: walk_eval)
  also have "\<dots> = ?walk 2 0x1438 26812 [?c1, ?c0]"
    using walk_profile [of 1 3 ?dev dives_5_7_6_by_slot 1 "0x143E" 26818 "[0x11, 0x22]"
        "Some continue_always" "[?c1]"]
      by_slot_reaches by_slot_slots by_slot_profiles
    by (simp del: One_nat_def add: walk_eval)
  also have "\<dots> = (Returned DC_STATUS_DATAFORMAT, [?c1, ?c0])"
    using walk_bad_pointers [of 2 3 dives_5_7_6_by_slot 1 ?dev "Some continue_always"
        "0x1438" 26812 "[?c1, ?c0]"] by_slot_reaches
    by (simp del: One_nat_def add: walk_eval)
  finally show ?thesis .
qed

lemma call_counter_profile_call:
  "SZ_MEMORY \<le> length data \<Longrightarrow> idx < RB_LOGBOOK_COUNT \<Longrightarrow>
     call_counter (profile_call data idx profile) = slot_counter data idx"
  by (rule call_counter_of_entry) (simp_all add: call_entry_profile_call)

text \<open>The claim fails. On both images three slots are written, with the dive numbers 5, 7
  and 6 in the slots 0, 1 and 2, and the fingerprint is empty. Where the profiles follow each
  other in the order of the dive numbers, the callback is invoked once, for dive 7, and the
  continuity test of slot 0 fails. Where they follow each other in the order of the slots,
  the callback is invoked for dive 7 and for dive 5, and the walk then reads the never-written
  slot 59. Dive 6 is passed to the callback in neither case, and both extractions return
  DataFormat.\<close>

theorem dives_5_7_6_counterexample:
  "cressi_leonardo_extract_dives (Some cressi_leonardo_device_new) dives_5_7_6_by_number
      (Some continue_always)
     = (Returned DC_STATUS_DATAFORMAT, [profile_call dives_5_7_6_by_number 1 [0x55, 0x66]])
   \<and> call_counter (profile_call dives_5_7_6_by_number 1 [0x55, 0x66]) = 7
   \<and> cressi_leonardo_extract_dives (Some cressi_leonardo_device_new) dives_5_7_6_by_slot
      (Some continue_always)
     = (Returned DC_STATUS_DATAFORMAT,
        [profile_call dives_5_7_6_by_slot 1 [0x33, 0x44],
         profile_call dives_5_7_6_by_slot 0 [0x11, 0x22]])
   \<and> call_counter (profile_call dives_5_7_6_by_slot 1 [0x33, 0x44]) = 7
   \<and> call_counter (profile_call dives_5_7_6_by_slot 0 [0x11, 0x22]) = 5"
  using by_number_walk by_slot_walk by_number_slots by_slot_slots
  by (simp del: One_nat_def
      add: cressi_leonardo_extract_dives_def image_sizes by_number_locate by_slot_locate
        profile_capacity call_counter_profile_call RB_LOGBOOK_COUNT_def RB_LOGBOOK_END_def
        RB_LOGBOOK_BEGIN_def RB_LOGBOOK_SIZE_def)

theorem dives_5_7_6_walk_witness:
  "cressi_leonardo_locate dives_5_7_6_by_slot 0 0 0 0 = (3, 1)
   \<and> map call_counter (snd (cressi_leonardo_extract_dives (Some cressi_leonardo_device_new)
         dives_5_7_6_by_slot (Some continue_always))) \<in> {[], [7], [7, 5]}
   \<and> fst (cressi_leonardo_extract_dives (Some cressi_leonardo_device_new)
         dives_5_7_6_by_slot (Some continue_always)) \<noteq> Returned DC_STATUS_SUCCESS"
  using dives_5_7_6_walk [of dives_5_7_6_by_slot "Some cressi_leonardo_device_new"
      "Some continue_always" continue_always]
    by_slot_blank by_slot_slots by_slot_identifiers image_sizes
  by (simp del: One_nat_def add: fingerprint_match_Some fingerprint_new continue_always_def)

subsection \<open>Pointer arithmetic without wrap-around\<close>

lemma unat_byte_less: "unat (b :: byte) < 256"
  using unsigned_less [of b, where ?'a = nat] by simp

lemma unat_ucast_byte: "unat (ucast (b :: byte) :: uint32) = unat b"
  using unat_byte_less [of b] by (simp add: unsigned_ucast_eq take_bit_nat_eq_self)

lemma unat_array_uint16_le:
  "unat (array_uint16_le data off) = unat (data ! off) + 256 * unat (data ! (off + 1))"
proof -
  let ?a = "ucast (data ! off) :: uint32" and ?b = "ucast (data ! (off + 1)) :: uint32"
  have a: "unat ?a < 256" and b: "unat ?b < 256"
    by (simp_all add: unat_ucast_byte unat_byte_less)
  have "unat (256 :: uint32) * unat ?b < 2 ^ LENGTH(32)"
    using b by simp
  then have "unat (256 * ?b) = unat (256 :: uint32) * unat ?b"
    by (rule unat_mult_lem [THEN iffD1])
  then have m: "unat (256 * ?b) = 256 * unat ?b"
    by simp
  have "unat ?a + unat (256 * ?b) < 2 ^ LENGTH(32)"
    using a b m by simp
  then have "unat (?a + 256 * ?b) = unat ?a + unat (256 * ?b)"
    by (rule unat_add_lem [THEN iffD1])
  with m show ?thesis
    by (simp add: array_uint16_le_def push_bit_eq_mult unat_ucast_byte mult.commute)
qed

lemma array_uint16_le_less: "unat (array_uint16_le data off) < 65536"
  using unat_byte_less [of "data ! off"] unat_byte_less [of "data ! (off + 1)"]
  by (simp add: unat_array_uint16_le)

lemma unat_plus_2:
  assumes "unat (w :: uint32) < 65536"
  shows "unat (w + 2) = unat w + 2"
proof -
  have "unat w + unat (2 :: uint32) < 2 ^ LENGTH(32)"
    using assms by simp
  then have "unat (w + 2) = unat w + unat (2 :: uint32)"
    by (rule unat_add_lem [THEN iffD1])
  then show ?thesis by simp
qed

lemma pointers_ok_nat:
  assumes "pointers_ok data idx"
  shows "5176 \<le> unat (slot_header data idx)" "unat (slot_header data idx) + 2 \<le> 32000"
    "5176 \<le> unat (slot_footer data idx)" "unat (slot_footer data idx) + 2 \<le> 32000"
proof -
  have h: "unat (slot_header data idx) < 65536" and f: "unat (slot_footer data idx) < 65536"
    by (simp_all add: slot_header_def slot_footer_def array_uint16_le_less)
  from assms have "\<not> slot_header data idx < 5176" "\<not> slot_header data idx + 2 > 32000"
    "\<not> slot_footer data idx < 5176" "\<not> slot_footer data idx + 2 > 32000"
    by (simp_all add: pointers_ok_def RB_PROFILE_BEGIN_def RB_PROFILE_END_def)
  then show "5176 \<le> unat (slot_header data idx)" "unat (slot_header data idx) + 2 \<le> 32000"
    "5176 \<le> unat (slot_footer data idx)" "unat (slot_footer data idx) + 2 \<le> 32000"
    using unat_plus_2 [OF h] unat_plus_2 [OF f]
    by (simp_all add: word_less_nat_alt not_less)
qed

lemma unat_profile_distance: "unat (RB_PROFILE_DISTANCE a b) \<le> 26824"
proof -
  have m: "unat (x mod (26824 :: uint32)) < 26824" for x
    by (simp add: unat_mod)
  have "unat (26824 - x mod (26824 :: uint32)) \<le> 26824" for x
  proof -
    have "x mod 26824 \<le> (26824 :: uint32)"
      using m [of x] by (simp add: word_le_nat_alt)
    then have "unat (26824 - x mod 26824) = unat (26824 :: uint32) - unat (x mod 26824)"
      by (rule unat_sub)
    then show ?thesis by simp
  qed
  with m show ?thesis
    by (auto simp: RB_PROFILE_DISTANCE_def ringbuffer_distance_def RB_PROFILE_BEGIN_def
        RB_PROFILE_END_def less_imp_le)
qed

lemma slot_profile_defined:
  assumes ok: "pointers_ok data idx"
    and dist: "2 \<le> RB_PROFILE_DISTANCE (slot_header data idx) (slot_footer data idx)"
    and size: "SZ_MEMORY \<le> length data"
  shows "\<exists>profile. slot_profile data idx = Some profile"
proof -
  let ?h = "slot_header data idx"
  let ?d = "RB_PROFILE_DISTANCE ?h (slot_footer data idx)"
  let ?len = "?d - 2"
  define H where "H = unat ?h"
  define D where "D = unat ?d"
  from pointers_ok_nat [OF ok] have H: "5176 \<le> H" "H + 2 \<le> 32000"
    by (simp_all add: H_def)
  have D: "2 \<le> D" "D \<le> 26824"
    using dist unat_profile_distance [of ?h "slot_footer data idx"]
    by (simp_all add: D_def word_le_nat_alt)
  have len: "unat ?len = D - 2"
    using unat_sub [OF dist] by (simp add: D_def)
  have adr: "unat (?h + 2) = H + 2"
    unfolding H_def by (rule unat_plus_2) (simp add: slot_header_def array_uint16_le_less)
  have "unat (?h + 2) + unat ?len < 2 ^ LENGTH(32)"
    using H D by (simp add: len adr)
  then have "unat (?h + 2 + ?len) = unat (?h + 2) + unat ?len"
    by (rule unat_add_lem [THEN iffD1])
  then have sum: "unat (?h + 2 + ?len) = H + D"
    using D by (simp add: len adr)
  have "?h + 2 \<le> (32000 :: uint32)"
    using H by (simp add: word_le_nat_alt adr)
  then have "unat (32000 - (?h + 2)) = unat (32000 :: uint32) - unat (?h + 2)"
    by (rule unat_sub)
  then have part_a: "unat (32000 - (?h + 2)) = 32000 - (H + 2)"
    by (simp add: adr)
  have part_b: "unat (?len - (32000 - (?h + 2))) = H + D - 32000" if "32000 < H + D"
  proof -
    have "unat (32000 - (?h + 2)) \<le> unat ?len"
      unfolding part_a len using that H D by simp
    then have "32000 - (?h + 2) \<le> ?len"
      by (simp only: word_le_nat_alt)
    then have "unat (?len - (32000 - (?h + 2))) = unat ?len - unat (32000 - (?h + 2))"
      by (rule unat_sub)
    then show ?thesis unfolding part_a len using that H D by simp
  qed
  from size have long: "32000 \<le> length data" by (simp add: SZ_MEMORY_def)
  show ?thesis
  proof (cases "32000 < H + D")
    case True
    then have "unat (32000 :: uint32) < unat (?h + 2 + ?len)"
      unfolding sum by simp
    then have "?h + 2 + ?len > 32000"
      by (simp only: word_less_nat_alt)
    moreover have "unat (?h + 2) + unat (32000 - (?h + 2)) \<le> length data"
      unfolding adr part_a using H long by simp
    moreover have "unat (5176 :: uint32) + unat (?len - (32000 - (?h + 2))) \<le> length data"
      unfolding part_b [OF True] using True H D long by simp
    moreover have "\<not> unat ?len > unat (26824 :: uint32)"
      unfolding len using D by simp
    ultimately show ?thesis
      by (simp add: slot_profile_def slot_length_def copy_profile_def memcpy_from_def
          RB_PROFILE_END_def RB_PROFILE_BEGIN_def)
  next
    case False
    then have "\<not> unat (32000 :: uint32) < unat (?h + 2 + ?len)"
      unfolding sum by simp
    then have "\<not> ?h + 2 + ?len > 32000"
      by (simp only: word_less_nat_alt not_False_eq_True)
    moreover have "unat (?h + 2) + unat ?len \<le> length data"
      unfolding adr len using False H D long by simp
    moreover have "\<not> unat ?len > unat (26824 :: uint32)"
      unfolding len using D by simp
    ultimately show ?thesis
      by (simp add: slot_profile_def slot_length_def copy_profile_def memcpy_from_def
          RB_PROFILE_END_def RB_PROFILE_BEGIN_def)
  qed
qed

subsection \<open>Walking over slots that pass the tests\<close>

lemma walk_passing_step:
  assumes "i < count" and "SZ_MEMORY \<le> length data"
    and "slot_passes data latest i"
    and "\<not> fingerprint_match device data (walk_idx latest i)"
    and "\<forall>calls c. f calls c"
  shows "\<exists>c.
      cressi_leonardo_walk device data (Some f) latest count i (previous_at data latest i)
          (remaining_at data latest i) calls
        = cressi_leonardo_walk device data (Some f) latest count (i + 1)
            (previous_at data latest (i + 1)) (remaining_at data latest (i + 1)) (calls @ [c])
      \<and> call_entry c = logbook_entry data (walk_idx latest i)"
proof -
  let ?idx = "walk_idx latest i"
  let ?remaining = "remaining_at data latest i"
  note entry = call_entry_entry_call [OF assms(2) walk_idx_less]
    call_entry_profile_call [OF assms(2) walk_idx_less]
  have next_prev: "previous_at data latest (i + 1) = slot_header data ?idx"
    by (simp add: previous_at_def)
  have reach: "reaches_copy device data ?idx (previous_at data latest i)"
    using assms(3,4) by (simp add: reaches_copy_def slot_passes_def)
  show ?thesis
  proof (cases "has_capacity ?remaining data ?idx")
    case False
    then have next_rem: "remaining_at data latest (i + 1) = 0"
      by simp
    from walk_no_capacity [OF assms(1) reach False, of "Some f" calls] assms(5) next_prev next_rem
    show ?thesis
      by (intro exI [of _ "entry_call data ?idx"]) (simp add: entry)
  next
    case True
    then have next_rem: "remaining_at data latest (i + 1)
        = ?remaining - (slot_length data ?idx + 4)"
      by simp
    from assms(3) True have echo: "profile_echo data ?idx"
      by (simp add: slot_passes_def)
    from assms(3) True obtain profile where profile: "slot_profile data ?idx = Some profile"
      by (auto simp: slot_passes_def)
    from walk_profile [OF assms(1) reach True echo profile, of "Some f" calls] assms(5)
      next_prev next_rem
    show ?thesis
      by (intro exI [of _ "profile_call data ?idx profile"]) (simp add: entry)
  qed
qed

lemma walk_passing_run:
  assumes "SZ_MEMORY \<le> length data" and "\<forall>calls c. f calls c" and "k \<le> count"
    and "\<forall>j. i \<le> j \<and> j < k \<longrightarrow>
           slot_passes data latest j \<and> \<not> fingerprint_match device data (walk_idx latest j)"
    and "i \<le> k"
  shows "\<exists>new.
      cressi_leonardo_walk device data (Some f) latest count i (previous_at data latest i)
          (remaining_at data latest i) calls
        = cressi_leonardo_walk device data (Some f) latest count k (previous_at data latest k)
            (remaining_at data latest k) (calls @ new)
      \<and> map call_entry new = map (\<lambda>j. logbook_entry data (walk_idx latest j)) [i..<k]"
  using assms(4,5)
proof (induction "k - i" arbitrary: i calls)
  case 0
  then have "i = k" by simp
  then show ?case by (intro exI [of _ "[]"]) simp
next
  case (Suc d)
  then have less: "i < k" by simp
  with assms(3) have "i < count" by simp
  from walk_passing_step [OF this assms(1) _ _ assms(2), of latest device calls]
    Suc.prems(1) less
  obtain c where step:
    "cressi_leonardo_walk device data (Some f) latest count i (previous_at data latest i)
        (remaining_at data latest i) calls
      = cressi_leonardo_walk device data (Some f) latest count (i + 1)
          (previous_at data latest (i + 1)) (remaining_at data latest (i + 1)) (calls @ [c])"
    "call_entry c = logbook_entry data (walk_idx latest i)"
    by auto
  have "\<exists>new.
      cressi_leonardo_walk device data (Some f) latest count (i + 1)
          (previous_at data latest (i + 1)) (remaining_at data latest (i + 1)) (calls @ [c])
        = cressi_leonardo_walk device data (Some f) latest count k (previous_at data latest k)
            (remaining_at data latest k) ((calls @ [c]) @ new)
      \<and> map call_entry new = map (\<lambda>j. logbook_entry data (walk_idx latest j)) [i + 1..<k]"
    using Suc.hyps(2) Suc.prems less by (intro Suc.hyps(1)) auto
  then obtain new where rest:
    "cressi_leonardo_walk device data (Some f) latest count (i + 1)
          (previous_at data latest (i + 1)) (remaining_at data latest (i + 1)) (calls @ [c])
        = cressi_leonardo_walk device data (Some f) latest count k (previous_at data latest k)
            (remaining_at data latest k) ((calls @ [c]) @ new)"
    "map call_entry new = map (\<lambda>j. logbook_entry data (walk_idx latest j)) [i + 1..<k]"
    by blast
  have "[i..<k] = i # [i + 1..<k]"
    using less upt_conv_Cons [of i k] by simp
  with step rest show ?case
    by (intro exI [of _ "c # new"]) simp
qed

lemma extract_as_walk:
  assumes "SZ_MEMORY \<le> length data" and "cressi_leonardo_locate data 0 0 0 0 = (count, latest)"
  shows "cressi_leonardo_extract_dives device data callback
      = cressi_leonardo_walk device data callback latest count 0 (previous_at data latest 0)
          (remaining_at data latest 0) []"
  using assms
  by (simp add: cressi_leonardo_extract_dives_def previous_at_def)

subsection \<open>The fingerprint\<close>

text \<open>Claim C5, as the code has it. The empty fingerprint is five zero bytes, and the
  extractor compares it like any other. Let \<open>count\<close> and \<open>latest\<close> be what the scan finds,
  let every one of the \<open>count\<close> iterations of the walk get through on the slot it visits
  (\<open>slot_passes\<close>, for the slot \<open>walk_idx latest j\<close> of iteration \<open>j\<close>: the tests of the source
  on the pointers, the continuity and, when the capacity holds the profile, its echo of the
  pointers are passed, and the memcpy of the profile is defined), and let the callback never
  ask to stop. With no device the extraction invokes the callback once for every
  visited slot, in the order of the walk, and returns Success. With a device whose
  fingerprint is empty (never set, or cleared by a set_fingerprint of size 0) it does so
  provided no visited slot has the identifier of five zero bytes.\<close>

theorem empty_fingerprint_extracts_all:
  assumes "SZ_MEMORY \<le> length data"
    and "cressi_leonardo_locate data 0 0 0 0 = (count, latest)"
    and "\<forall>j<count. slot_passes data latest j"
    and "\<forall>calls c. f calls c"
    and "fingerprint d = replicate cressi_fingerprint_size 0"
  shows "(\<exists>calls. cressi_leonardo_extract_dives None data (Some f)
             = (Returned DC_STATUS_SUCCESS, calls)
          \<and> map call_entry calls = map (\<lambda>j. logbook_entry data (walk_idx latest j)) [0..<count])
     \<and> ((\<forall>j<count. slot_identifier data (walk_idx latest j) \<noteq> replicate cressi_fingerprint_size 0)
          \<longrightarrow> (\<exists>calls. cressi_leonardo_extract_dives (Some d) data (Some f)
                   = (Returned DC_STATUS_SUCCESS, calls)
                \<and> map call_entry calls
                    = map (\<lambda>j. logbook_entry data (walk_idx latest j)) [0..<count]))"
proof -
  have all: "\<exists>calls. cressi_leonardo_extract_dives device data (Some f)
             = (Returned DC_STATUS_SUCCESS, calls)
          \<and> map call_entry calls = map (\<lambda>j. logbook_entry data (walk_idx latest j)) [0..<count]"
    if "\<forall>j<count. \<not> fingerprint_match device data (walk_idx latest j)" for device
  proof -
    have "\<exists>new.
        cressi_leonardo_walk device data (Some f) latest count 0 (previous_at data latest 0)
            (remaining_at data latest 0) []
          = cressi_leonardo_walk device data (Some f) latest count count
              (previous_at data latest count) (remaining_at data latest count) ([] @ new)
        \<and> map call_entry new = map (\<lambda>j. logbook_entry data (walk_idx latest j)) [0..<count]"
      using assms(3) that by (intro walk_passing_run [OF assms(1,4)]) auto
    then obtain new where
      "cressi_leonardo_walk device data (Some f) latest count 0 (previous_at data latest 0)
            (remaining_at data latest 0) []
         = cressi_leonardo_walk device data (Some f) latest count count
             (previous_at data latest count) (remaining_at data latest count) new"
      "map call_entry new = map (\<lambda>j. logbook_entry data (walk_idx latest j)) [0..<count]"
      by auto
    then show ?thesis
      by (simp add: extract_as_walk [OF assms(1,2)] walk_done)
  qed
  show ?thesis
  proof (intro conjI impI)
    show "\<exists>calls. cressi_leonardo_extract_dives None data (Some f)
             = (Returned DC_STATUS_SUCCESS, calls)
          \<and> map call_entry calls = map (\<lambda>j. logbook_entry data (walk_idx latest j)) [0..<count]"
      by (rule all) (simp add: fingerprint_match_def)
  next
    assume "\<forall>j<count. slot_identifier data (walk_idx latest j) \<noteq> replicate cressi_fingerprint_size 0"
    then show "\<exists>calls. cressi_leonardo_extract_dives (Some d) data (Some f)
             = (Returned DC_STATUS_SUCCESS, calls)
          \<and> map call_entry calls = map (\<lambda>j. logbook_entry data (walk_idx latest j)) [0..<count]"
      using assms(5) by (intro all) (simp add: fingerprint_match_Some)
  qed
qed


lemmas variant_defs = zero_identifier_dives_def bad_pointer_dives_def two_dives_bytes_def

lemma zero_identifier_slots:
  "slot_counter zero_identifier_dives 0 = 1" "slot_header zero_identifier_dives 0 = 0x1438"
  "slot_footer zero_identifier_dives 0 = 0x143C"
  "slot_counter zero_identifier_dives 1 = 2" "slot_header zero_identifier_dives 1 = 0x143E"
  "slot_footer zero_identifier_dives 1 = 0x1442"
  "slot_identifier zero_identifier_dives 0 = [0, 0, 0, 0, 0]"
  "slot_identifier zero_identifier_dives 1 = [0x0E, 0x01, 0x02, 0x0B, 0x1E]"
  by (simp_all add: slot_defs variant_defs image_simps cressi_consts)


lemma zero_identifier_profiles:
  "profile_echo zero_identifier_dives 0" "profile_echo zero_identifier_dives 1"
  "slot_profile zero_identifier_dives 0 = Some [0x11, 0x22]"
  "slot_profile zero_identifier_dives 1 = Some [0x33, 0x44]"
  "slot_length zero_identifier_dives 0 = 2" "slot_length zero_identifier_dives 1 = 2"
  using zero_identifier_slots
  by (simp_all add: profile_defs variant_defs image_simps cressi_consts)

lemma locate_two:
  assumes "\<not> array_isequal data (logbook_offset 0) RB_LOGBOOK_SIZE 0xFF"
    and "\<not> array_isequal data (logbook_offset 1) RB_LOGBOOK_SIZE 0xFF"
    and "array_isequal data (logbook_offset 2) RB_LOGBOOK_SIZE 0xFF"
    and "slot_counter data 0 = 1" and "slot_counter data 1 = 2"
  shows "cressi_leonardo_locate data 0 0 0 0 = (2, 1)"
  using locate_step [of 0 data 0 0 0] locate_step [of 1 data 1 0 1] locate_blank [of 2 data 2 1 2]
    assms
  by (simp del: One_nat_def add: RB_LOGBOOK_COUNT_def RB_LOGBOOK_END_def RB_LOGBOOK_BEGIN_def
      RB_LOGBOOK_SIZE_def)

lemma zero_identifier_locate: "cressi_leonardo_locate zero_identifier_dives 0 0 0 0 = (2, 1)"
proof (rule locate_two)
  show "\<not> array_isequal zero_identifier_dives (logbook_offset 0) RB_LOGBOOK_SIZE 0xFF"
    "\<not> array_isequal zero_identifier_dives (logbook_offset 1) RB_LOGBOOK_SIZE 0xFF"
    unfolding zero_identifier_dives_def
    by (rule image_written; simp add: image_byte_def logbook_offset_def two_dives_bytes_def cressi_consts)+
  show "array_isequal zero_identifier_dives (logbook_offset 2) RB_LOGBOOK_SIZE 0xFF"
    unfolding zero_identifier_dives_def
    by (rule image_blank) (simp_all add: logbook_offset_def two_dives_bytes_def cressi_consts)
qed (simp_all del: One_nat_def add: zero_identifier_slots)


lemma variant_sizes:
  "\<not> length zero_identifier_dives < SZ_MEMORY" "\<not> length bad_pointer_dives < SZ_MEMORY"
  by (simp_all add: variant_defs length_image_of SZ_MEMORY_def)

lemma walk_idx_1_Suc: "walk_idx 1 (Suc 0) = 0"
  using walk_idx_1(2) by simp

lemma two_dives_passes: "slot_passes two_dives 1 0" "slot_passes two_dives 1 1"
  using two_dives_slots two_dives_profiles walk_idx_1 walk_idx_1_Suc
  by (simp_all add: slot_passes_def previous_at_def pointers_ok_def has_capacity_def cressi_consts)

lemma zero_identifier_passes:
  "slot_passes zero_identifier_dives 1 0" "slot_passes zero_identifier_dives 1 1"
  using zero_identifier_slots zero_identifier_profiles walk_idx_1 walk_idx_1_Suc
  by (simp_all add: slot_passes_def previous_at_def pointers_ok_def has_capacity_def cressi_consts)

text \<open>The claim fails. The image holds two dives and both iterations of the walk get
  through on their slots; the fingerprint is the empty one. The dive in slot 0 has an
  identifier of five zero bytes, so the walk takes it for the dive already seen and stops
  with Success after one call for two discovered slots.\<close>

theorem empty_fingerprint_counterexample:
  "cressi_leonardo_locate zero_identifier_dives 0 0 0 0 = (2, 1)
   \<and> slot_passes zero_identifier_dives 1 0 \<and> slot_passes zero_identifier_dives 1 1
   \<and> fingerprint cressi_leonardo_device_new = [0, 0, 0, 0, 0]
   \<and> cressi_leonardo_extract_dives (Some cressi_leonardo_device_new) zero_identifier_dives
        (Some continue_always)
      = (Returned DC_STATUS_SUCCESS, [profile_call zero_identifier_dives 1 [0x33, 0x44]])"
proof -
  let ?dev = "Some cressi_leonardo_device_new"
  let ?walk = "cressi_leonardo_walk ?dev zero_identifier_dives (Some continue_always) 1 2"
  let ?c = "profile_call zero_identifier_dives 1 [0x33, 0x44]"
  have reach: "reaches_copy ?dev zero_identifier_dives 1 0"
    using zero_identifier_slots
    by (simp add: reaches_copy_def pointers_ok_def fingerprint_match_Some fingerprint_new
        cressi_consts)
  have ok: "pointers_ok zero_identifier_dives 0"
    and match: "fingerprint_match ?dev zero_identifier_dives 0"
    using zero_identifier_slots
    by (simp_all add: pointers_ok_def fingerprint_match_Some fingerprint_new cressi_consts)
  have "?walk 0 0 26824 [] = ?walk 1 0x143E 26818 [?c]"
    using walk_profile [of 0 2 ?dev zero_identifier_dives 1 0 26824 "[0x33, 0x44]"
        "Some continue_always" "[]"]
      reach zero_identifier_slots zero_identifier_profiles
    by (simp del: One_nat_def add: walk_eval)
  also have "\<dots> = (Returned DC_STATUS_SUCCESS, [?c])"
    using walk_fingerprint [of 1 2 zero_identifier_dives 1 "0x143E" ?dev "Some continue_always"
        26818 "[?c]"] ok match zero_identifier_slots
    by (simp del: One_nat_def add: walk_eval)
  finally show ?thesis
    using zero_identifier_passes
    by (simp add: cressi_leonardo_extract_dives_def variant_sizes zero_identifier_locate
        profile_capacity fingerprint_new)
qed


lemma replicate_zero_fingerprint: "replicate cressi_fingerprint_size (0 :: byte) = [0, 0, 0, 0, 0]"
  by (simp add: cressi_fingerprint_size_def numeral_eq_Suc)

theorem empty_fingerprint_extracts_all_witness:
  "(\<exists>calls. cressi_leonardo_extract_dives None two_dives (Some continue_always)
       = (Returned DC_STATUS_SUCCESS, calls)
     \<and> map call_entry calls = map (\<lambda>j. logbook_entry two_dives (walk_idx 1 j)) [0..<2])
   \<and> (\<exists>calls. cressi_leonardo_extract_dives
         (Some (snd (cressi_leonardo_device_set_fingerprint \<lparr> fingerprint = [1, 2, 3, 4, 5] \<rparr> [] 0)))
         two_dives (Some continue_always)
       = (Returned DC_STATUS_SUCCESS, calls)
     \<and> map call_entry calls = map (\<lambda>j. logbook_entry two_dives (walk_idx 1 j)) [0..<2])"
proof -
  let ?d = "snd (cressi_leonardo_device_set_fingerprint \<lparr> fingerprint = [1, 2, 3, 4, 5] \<rparr> [] 0)"
  have valid: "\<forall>j<2. slot_passes two_dives 1 j"
    using two_dives_passes by (simp add: numeral_2_eq_2 All_less_Suc)
  have continues: "\<forall>calls c. continue_always calls c"
    by (simp add: continue_always_def)
  have cleared: "fingerprint ?d = replicate cressi_fingerprint_size 0"
    by (simp add: cressi_leonardo_device_set_fingerprint_def)
  have nonzero: "\<forall>j<2. slot_identifier two_dives (walk_idx 1 j) \<noteq> replicate cressi_fingerprint_size 0"
    using two_dives_identifiers walk_idx_1
    by (simp add: numeral_2_eq_2 All_less_Suc replicate_zero_fingerprint)
  show ?thesis
    using empty_fingerprint_extracts_all [OF image_sizes(1) two_dives_locate valid continues cleared]
      nonzero
    by blast
qed


subsection \<open>Waits and retries of the socket loops\<close>

lemma read_tvt_is_timeout:
  assumes "0 \<le> timeout socket"
  shows "\<exists>sec usec. dc_socket_read_tvt socket = Some (sec, usec)
      \<and> sec * 1000000 + usec = nat (timeout socket) * 1000"
proof (cases "0 < timeout socket")
  case True
  have "nat (timeout socket div 1000) = nat (timeout socket) div 1000"
    and "nat (timeout socket mod 1000) = nat (timeout socket) mod 1000"
    using assms by (simp_all add: nat_div_distrib nat_mod_distrib)
  moreover have "n div 1000 * 1000000 + n mod 1000 * 1000 = n * 1000" for n :: nat
  proof -
    have "n * 1000 = (n div 1000 * 1000 + n mod 1000) * 1000"
      by simp
    also have "\<dots> = n div 1000 * 1000000 + n mod 1000 * 1000"
      by (simp only: add_mult_distrib mult.assoc)
    finally show ?thesis
      by (rule sym)
  qed
  ultimately have "nat (timeout socket div 1000) * 1000000 + nat (timeout socket mod 1000) * 1000
      = nat (timeout socket) * 1000"
    by simp
  with True show ?thesis
    by (simp add: dc_socket_read_tvt_def)
next
  case False
  with assms show ?thesis
    by (simp add: dc_socket_read_tvt_def)
qed

lemma read_select_ready:
  assumes "0 \<le> timeout socket"
  shows "select_call (dc_socket_read_tvt socket) (Wait_ready d)
      = Some (Select_count (if d \<le> nat (timeout socket) * 1000 then 1 else 0))"
proof -
  obtain sec usec where "dc_socket_read_tvt socket = Some (sec, usec)"
    and "sec * 1000000 + usec = nat (timeout socket) * 1000"
    using read_tvt_is_timeout [OF assms] by blast
  then show ?thesis by simp
qed

lemma read_select_never:
  assumes "0 \<le> timeout socket"
  shows "select_call (dc_socket_read_tvt socket) Wait_never = Some (Select_count 0)"
proof -
  obtain tv where "dc_socket_read_tvt socket = Some tv"
    using read_tvt_is_timeout [OF assms] by blast
  then show ?thesis by simp
qed

lemma read_loop_expired:
  assumes "0 \<le> timeout socket" and "nbytes < sz"
    and "fst (env k) = Wait_never
      \<or> (\<exists>d. fst (env k) = Wait_ready d \<and> nat (timeout socket) * 1000 < d)"
  shows "dc_socket_read_loop socket env sz k nbytes = Some (DC_STATUS_TIMEOUT, nbytes)"
proof -
  have "select_call (dc_socket_read_tvt socket) (fst (env k)) = Some (Select_count 0)"
    using assms(3) read_select_ready [OF assms(1)] read_select_never [OF assms(1)] by auto
  then have "short_stop (dc_socket_read_tvt socket) (env k)"
    by (simp add: short_stop_def wait_expired_def)
  with assms(2) show ?thesis
    by (simp add: read_loop_short_stop)
qed

lemma read_loop_blocks:
  assumes "timeout socket < 0" and "nbytes < sz" and "fst (env k) = Wait_never"
  shows "dc_socket_read_loop socket env sz k nbytes = None"
  using assms by (subst dc_socket_read_loop.simps) (simp add: dc_socket_read_tvt_def)

lemma write_loop_blocks:
  assumes "nbytes < sz" and "fst (env k) = Wait_never"
  shows "dc_socket_write_loop socket env sz k nbytes = None"
  using assms by (subst dc_socket_write_loop.simps) (simp add: dc_socket_write_tvt_def)

lemma read_loop_interrupted_forever:
  assumes "nbytes < sz" and "\<forall>j\<ge>k. fst (env j) = Wait_error S_EINTR"
  shows "dc_socket_read_loop socket env sz k nbytes = None"
proof (rule ccontr)
  assume "dc_socket_read_loop socket env sz k nbytes \<noteq> None"
  then obtain y where "dc_socket_read_loop socket env sz k nbytes = Some y"
    by blast
  then have "\<not> (nbytes < sz \<and> (\<forall>j\<ge>k. fst (env j) = Wait_error S_EINTR))"
  proof (rule dc_socket_read_loop.raw_induct [where P = "\<lambda>socket env sz k nbytes y.
      \<not> (nbytes < sz \<and> (\<forall>j\<ge>k. fst (env j) = Wait_error S_EINTR))", rotated 1])
    fix loop :: "dc_socket \<Rightarrow> socket_env \<Rightarrow> nat \<Rightarrow> nat \<Rightarrow> nat \<Rightarrow> (dc_status \<times> nat) option"
      and socket :: dc_socket and env :: socket_env and sz k nbytes :: nat
      and y :: "dc_status \<times> nat"
    assume step: "\<And>socket env sz k nbytes y. loop socket env sz k nbytes = Some y \<Longrightarrow>
        \<not> (nbytes < sz \<and> (\<forall>j\<ge>k. fst (env j) = Wait_error S_EINTR))"
    assume body: "(if nbytes < sz then
        (case select_call (dc_socket_read_tvt socket) (fst (env k)) of
           None \<Rightarrow> None
         | Some (Select_error errcode) \<Rightarrow>
             if errcode = S_EINTR then loop socket env sz (k + 1) nbytes
             else Some (dc_socket_syserror errcode, nbytes)
         | Some (Select_count rc) \<Rightarrow>
             if rc = 0 then Some (dc_socket_finish sz nbytes)
             else (case snd (env k) of
                Xfer_error errcode \<Rightarrow>
                  if errcode = S_EINTR \<or> errcode = S_EAGAIN
                    then loop socket env sz (k + 1) nbytes
                  else Some (dc_socket_syserror errcode, nbytes)
              | Xfer_count n \<Rightarrow>
                  if n = 0 then Some (dc_socket_finish sz nbytes)
                  else loop socket env sz (k + 1) (nbytes + n)))
      else Some (dc_socket_finish sz nbytes)) = Some y"
    show "\<not> (nbytes < sz \<and> (\<forall>j\<ge>k. fst (env j) = Wait_error S_EINTR))"
    proof
      assume a: "nbytes < sz \<and> (\<forall>j\<ge>k. fst (env j) = Wait_error S_EINTR)"
      then have "fst (env k) = Wait_error S_EINTR" by simp
      with a body have "loop socket env sz (k + 1) nbytes = Some y"
        by simp
      from step [OF this] a show False by simp
    qed
  qed
  with assms show False by simp
qed

lemma write_loop_interrupted_forever:
  assumes "nbytes < sz" and "\<forall>j\<ge>k. fst (env j) = Wait_error S_EINTR"
  shows "dc_socket_write_loop socket env sz k nbytes = None"
proof (rule ccontr)
  assume "dc_socket_write_loop socket env sz k nbytes \<noteq> None"
  then obtain y where "dc_socket_write_loop socket env sz k nbytes = Some y"
    by blast
  then have "\<not> (nbytes < sz \<and> (\<forall>j\<ge>k. fst (env j) = Wait_error S_EINTR))"
  proof (rule dc_socket_write_loop.raw_induct [where P = "\<lambda>socket env sz k nbytes y.
      \<not> (nbytes < sz \<and> (\<forall>j\<ge>k. fst (env j) = Wait_error S_EINTR))", rotated 1])
    fix loop :: "dc_socket \<Rightarrow> socket_env \<Rightarrow> nat \<Rightarrow> nat \<Rightarrow> nat \<Rightarrow> (dc_status \<times> nat) option"
      and socket :: dc_socket and env :: socket_env and sz k nbytes :: nat
      and y :: "dc_status \<times> nat"
    assume step: "\<And>socket env sz k nbytes y. loop socket env sz k nbytes = Some y \<Longrightarrow>
        \<not> (nbytes < sz \<and> (\<forall>j\<ge>k. fst (env j) = Wait_error S_EINTR))"
    assume body: "(if nbytes < sz then
        (case select_call (dc_socket_write_tvt socket) (fst (env k)) of
           None \<Rightarrow> None
         | Some (Select_error errcode) \<Rightarrow>
             if errcode = S_EINTR then loop socket env sz (k + 1) nbytes
             else Some (dc_socket_syserror errcode, nbytes)
         | Some (Select_count rc) \<Rightarrow>
             if rc = 0 then Some (dc_socket_finish sz nbytes)
             else (case snd (env k) of
                Xfer_error errcode \<Rightarrow>
                  if errcode = S_EINTR \<or> errcode = S_EAGAIN
                    then loop socket env sz (k + 1) nbytes
                  else Some (dc_socket_syserror errcode, nbytes)
              | Xfer_count n \<Rightarrow>
                  if n = 0 then Some (dc_socket_finish sz nbytes)
                  else loop socket env sz (k + 1) (nbytes + n)))
      else Some (dc_socket_finish sz nbytes)) = Some y"
    show "\<not> (nbytes < sz \<and> (\<forall>j\<ge>k. fst (env j) = Wait_error S_EINTR))"
    proof
      assume a: "nbytes < sz \<and> (\<forall>j\<ge>k. fst (env j) = Wait_error S_EINTR)"
      then have "fst (env k) = Wait_error S_EINTR" by simp
      with a body have "loop socket env sz (k + 1) nbytes = Some y"
        by simp
      from step [OF this] a show False by simp
    qed
  qed
  with assms show False by simp
qed

text \<open>Claim C9, as the code has it. The retry loop of the framed transfer makes at most
  \<open>MAXRETRIES + 1\<close> attempts. When the timeout of the handle is not negative, the timeval
  that \<^verbatim>\<open>dc_socket_read\<close> hands to select is that timeout exactly (in microseconds, 1000
  times the milliseconds of the handle): a wait of the read reports a descriptor that
  becomes ready after \<open>d\<close> microseconds as ready if and only if \<open>d\<close> is within the timeout,
  and a read that is short of its size returns Timeout when its descriptor is not ready
  within the timeout. With a negative timeout (blocking, the value set on open) a short read
  whose descriptor never becomes ready does not return. \<^verbatim>\<open>dc_socket_write\<close> hands select a
  null timeout whatever the timeout of the handle is: a short write whose descriptor never
  becomes ready does not return. The retries after an interrupted wait are not counted,
  in the read or in the write: a short transfer whose every wait is interrupted does not
  return.\<close>

theorem socket_wait_bounds:
  "snd (snd (cressi_leonardo_transfer packet)) \<le> MAXRETRIES + 1
   \<and> (0 \<le> timeout socket \<longrightarrow>
        (\<exists>sec usec. dc_socket_read_tvt socket = Some (sec, usec)
            \<and> sec * 1000000 + usec = nat (timeout socket) * 1000)
        \<and> select_call (dc_socket_read_tvt socket) (Wait_ready d)
            = Some (Select_count (if d \<le> nat (timeout socket) * 1000 then 1 else 0))
        \<and> select_call (dc_socket_read_tvt socket) Wait_never = Some (Select_count 0))
   \<and> (0 \<le> timeout socket \<and> nbytes < sz
        \<and> (fst (env k) = Wait_never
            \<or> (\<exists>d. fst (env k) = Wait_ready d \<and> nat (timeout socket) * 1000 < d)) \<longrightarrow>
        dc_socket_read_loop socket env sz k nbytes = Some (DC_STATUS_TIMEOUT, nbytes))
   \<and> (timeout blocking < 0 \<and> nbytes < sz \<and> fst (env k) = Wait_never \<longrightarrow>
        dc_socket_read_loop blocking env sz k nbytes = None)
   \<and> (nbytes < sz \<and> fst (env k) = Wait_never \<longrightarrow>
        dc_socket_write_loop socket env sz k nbytes = None)
   \<and> (nbytes < sz \<and> (\<forall>j\<ge>k. fst (peer j) = Wait_error S_EINTR) \<longrightarrow>
        dc_socket_read_loop socket peer sz k nbytes = None
        \<and> dc_socket_write_loop socket peer sz k nbytes = None)"
proof (intro conjI impI)
  show "snd (snd (cressi_leonardo_transfer packet)) \<le> MAXRETRIES + 1"
    using transfer_attempts_bound [of MAXRETRIES packet 0]
    by (simp add: cressi_leonardo_transfer_def)
next
  assume "0 \<le> timeout socket"
  then show "\<exists>sec usec. dc_socket_read_tvt socket = Some (sec, usec)
      \<and> sec * 1000000 + usec = nat (timeout socket) * 1000"
    by (rule read_tvt_is_timeout)
next
  assume "0 \<le> timeout socket"
  then show "select_call (dc_socket_read_tvt socket) (Wait_ready d)
      = Some (Select_count (if d \<le> nat (timeout socket) * 1000 then 1 else 0))"
    by (rule read_select_ready)
next
  assume "0 \<le> timeout socket"
  then show "select_call (dc_socket_read_tvt socket) Wait_never = Some (Select_count 0)"
    by (rule read_select_never)
next
  assume "0 \<le> timeout socket \<and> nbytes < sz
      \<and> (fst (env k) = Wait_never
          \<or> (\<exists>d. fst (env k) = Wait_ready d \<and> nat (timeout socket) * 1000 < d))"
  then show "dc_socket_read_loop socket env sz k nbytes = Some (DC_STATUS_TIMEOUT, nbytes)"
    by (intro read_loop_expired) simp_all
next
  assume "timeout blocking < 0 \<and> nbytes < sz \<and> fst (env k) = Wait_never"
  then show "dc_socket_read_loop blocking env sz k nbytes = None"
    by (intro read_loop_blocks) simp_all
next
  assume "nbytes < sz \<and> fst (env k) = Wait_never"
  then show "dc_socket_write_loop socket env sz k nbytes = None"
    by (intro write_loop_blocks) simp_all
next
  assume a: "nbytes < sz \<and> (\<forall>j\<ge>k. fst (peer j) = Wait_error S_EINTR)"
  then show "dc_socket_read_loop socket peer sz k nbytes = None"
    by (intro read_loop_interrupted_forever) simp_all
  from a show "dc_socket_write_loop socket peer sz k nbytes = None"
    by (intro write_loop_interrupted_forever) simp_all
qed

theorem socket_wait_bounds_witness:
  "dc_socket_read_tvt socket_1s = Some (1, 0)
   \<and> select_call (dc_socket_read_tvt socket_1s) (Wait_ready 1000000) = Some (Select_count 1)
   \<and> select_call (dc_socket_read_tvt socket_1s) (Wait_ready 1000001) = Some (Select_count 0)
   \<and> dc_socket_read_loop socket_1s never_ready 1 0 0 = Some (DC_STATUS_TIMEOUT, 0)
   \<and> dc_socket_read_loop socket_blocking never_ready 1 0 0 = None
   \<and> dc_socket_write_loop socket_1s never_ready 1 0 0 = None
   \<and> dc_socket_read_loop socket_1s interrupting_peer 1 0 0 = None
   \<and> dc_socket_write_loop socket_1s interrupting_peer 1 0 0 = None"
  using socket_wait_bounds [of "\<lambda>k. (DC_STATUS_SUCCESS, [])" socket_1s 1000000 0 1 never_ready 0
      socket_blocking interrupting_peer]
    socket_wait_bounds [of "\<lambda>k. (DC_STATUS_SUCCESS, [])" socket_1s 1000001 0 1 never_ready 0
      socket_blocking interrupting_peer]
  by (simp add: socket_1s_def socket_blocking_def never_ready_def interrupting_peer_def
      dc_socket_read_tvt_def)

text \<open>The claim fails. With a timeout of one second configured, a write of one byte to a
  peer whose descriptor never becomes ready does not return; and neither a read nor a write
  of one byte returns when every readiness wait is interrupted: the retries are bounded
  neither by a count nor by the timeout.\<close>

theorem socket_write_unbounded_counterexample:
  "timeout socket_1s = 1000
   \<and> dc_socket_write socket_1s never_ready 1 = None
   \<and> dc_socket_read socket_1s interrupting_peer 1 = None
   \<and> dc_socket_write socket_1s interrupting_peer 1 = None"
proof -
  have "dc_socket_write socket_1s never_ready 1 = None"
    by (subst dc_socket_write_def, subst dc_socket_write_loop.simps)
       (simp add: socket_1s_def never_ready_def dc_socket_write_tvt_def)
  moreover have "dc_socket_read socket_1s interrupting_peer 1 = None"
    unfolding dc_socket_read_def
    by (rule read_loop_interrupted_forever) (simp_all add: interrupting_peer_def)
  moreover have "dc_socket_write socket_1s interrupting_peer 1 = None"
    unfolding dc_socket_write_def
    by (rule write_loop_interrupted_forever) (simp_all add: interrupting_peer_def)
  ultimately show ?thesis
    by (simp add: socket_1s_def)
qed

subsection \<open>Exhausted capacity\<close>

lemma logbook_entry_nth:
  assumes "SZ_MEMORY \<le> length data" and "idx < RB_LOGBOOK_COUNT" and "b < RB_LOGBOOK_SIZE"
  shows "logbook_entry data idx ! b = data ! (RB_LOGBOOK_BEGIN + idx * RB_LOGBOOK_SIZE + b)"
proof -
  from logbook_entry_in_image [OF assms(1,2)]
  have "logbook_offset idx + b < length data"
    using assms(3) by simp
  with assms(3) show ?thesis
    by (simp add: logbook_entry_def logbook_offset_def)
qed

text \<open>Claim C6. Take an iteration of the walk that passes the pointer, continuity and
  fingerprint tests on its slot, in an image of the required size, and in which the
  remaining capacity does not hold the profile: the test
  \<^verbatim>\<open>remaining && remaining >= length + 4\<close> fails, with the length the circular distance from
  header to footer minus 2. Then the callback receives a record of exactly
  \<open>RB_LOGBOOK_SIZE\<close> bytes, which are the bytes of the slot in the image, with no profile
  data behind them, and with the bytes 8 to 12 of the record as its fingerprint. No error is
  returned: the walk goes on with the next iteration, with the header pointer of the slot as
  \<open>previous\<close> and no capacity left, or it ends with Success when the callback asks to stop.
  With a null callback the walk goes on likewise.\<close>

theorem capacity_exhausted_degrades:
  assumes "i < count"
    and "SZ_MEMORY \<le> length data"
    and "reaches_copy device data (walk_idx latest i) previous"
    and "\<not> (remaining \<noteq> 0
          \<and> remaining \<ge> RB_PROFILE_DISTANCE (slot_header data (walk_idx latest i))
                (slot_footer data (walk_idx latest i)) - 2 + 4)"
  shows "(\<exists>c. length (call_data c) = RB_LOGBOOK_SIZE
        \<and> (\<forall>b<RB_LOGBOOK_SIZE.
              call_data c ! b = data ! (RB_LOGBOOK_BEGIN + walk_idx latest i * RB_LOGBOOK_SIZE + b))
        \<and> call_fingerprint c = take cressi_fingerprint_size (drop 8 (call_data c))
        \<and> cressi_leonardo_walk device data (Some f) latest count i previous remaining calls
           = (if f calls c
                then cressi_leonardo_walk device data (Some f) latest count (i + 1)
                       (slot_header data (walk_idx latest i)) 0 (calls @ [c])
              else (Returned DC_STATUS_SUCCESS, calls @ [c])))
     \<and> cressi_leonardo_walk device data None latest count i previous remaining calls
        = cressi_leonardo_walk device data None latest count (i + 1)
            (slot_header data (walk_idx latest i)) 0 calls"
proof -
  let ?idx = "walk_idx latest i"
  let ?c = "entry_call data ?idx"
  have none: "\<not> has_capacity remaining data ?idx"
    using assms(4) by (simp add: has_capacity_def slot_length_def)
  have "length (call_data ?c) = RB_LOGBOOK_SIZE"
    using length_logbook_entry [OF assms(2) walk_idx_less] by (simp add: entry_call_def)
  moreover have "\<forall>b<RB_LOGBOOK_SIZE.
      call_data ?c ! b = data ! (RB_LOGBOOK_BEGIN + ?idx * RB_LOGBOOK_SIZE + b)"
    using logbook_entry_nth [OF assms(2) walk_idx_less] by (simp add: entry_call_def)
  moreover have "call_fingerprint ?c = take cressi_fingerprint_size (drop 8 (call_data ?c))"
    by (simp add: entry_call_def)
  moreover have "cressi_leonardo_walk device data (Some f) latest count i previous remaining calls
      = (if f calls ?c
           then cressi_leonardo_walk device data (Some f) latest count (i + 1)
                  (slot_header data ?idx) 0 (calls @ [?c])
         else (Returned DC_STATUS_SUCCESS, calls @ [?c]))"
    using walk_no_capacity [OF assms(1,3) none, of "Some f" calls] by simp
  moreover have "cressi_leonardo_walk device data None latest count i previous remaining calls
      = cressi_leonardo_walk device data None latest count (i + 1) (slot_header data ?idx) 0 calls"
    using walk_no_capacity [OF assms(1,3) none, of None calls] by simp
  ultimately show ?thesis
    by blast
qed

lemma overwritten_slots:
  "slot_counter overwritten_dives 0 = 1" "slot_header overwritten_dives 0 = 0x1438"
  "slot_footer overwritten_dives 0 = 0x2000"
  "slot_counter overwritten_dives 1 = 2" "slot_header overwritten_dives 1 = 0x2002"
  "slot_footer overwritten_dives 1 = 0x1F00"
  "slot_identifier overwritten_dives 0 = [0x0E, 0x01, 0x01, 0x0A, 0x00]"
  "slot_identifier overwritten_dives 1 = [0x0E, 0x01, 0x02, 0x0B, 0x1E]"
  by (simp_all add: slot_defs overwritten_dives_def overwritten_dives_bytes_def image_simps
      cressi_consts)

lemma overwritten_locate: "cressi_leonardo_locate overwritten_dives 0 0 0 0 = (2, 1)"
proof (rule locate_two)
  show "\<not> array_isequal overwritten_dives (logbook_offset 0) RB_LOGBOOK_SIZE 0xFF"
    "\<not> array_isequal overwritten_dives (logbook_offset 1) RB_LOGBOOK_SIZE 0xFF"
    unfolding overwritten_dives_def
    by (rule image_written;
        simp add: image_byte_def logbook_offset_def overwritten_dives_bytes_def cressi_consts)+
  show "array_isequal overwritten_dives (logbook_offset 2) RB_LOGBOOK_SIZE 0xFF"
    unfolding overwritten_dives_def
    by (rule image_blank) (simp_all add: logbook_offset_def overwritten_dives_bytes_def cressi_consts)
qed (simp_all del: One_nat_def add: overwritten_slots)

lemma overwritten_size: "SZ_MEMORY \<le> length overwritten_dives"
  by (simp add: overwritten_dives_def length_image_of SZ_MEMORY_def)

lemma overwritten_lengths:
  "slot_length overwritten_dives 1 = 26564" "slot_length overwritten_dives 0 = 3014"
  "RB_PROFILE_DISTANCE (slot_header overwritten_dives 1) (slot_footer overwritten_dives 1) = 26566"
  "RB_PROFILE_DISTANCE (slot_header overwritten_dives 0) (slot_footer overwritten_dives 0) = 3016"
  using overwritten_slots
  by (simp_all add: slot_length_def RB_PROFILE_DISTANCE_def ringbuffer_distance_def
      RB_PROFILE_BEGIN_def RB_PROFILE_END_def)

lemma overwritten_reaches:
  "reaches_copy (Some cressi_leonardo_device_new) overwritten_dives 1 0"
  "reaches_copy (Some cressi_leonardo_device_new) overwritten_dives 0 0x2002"
  using overwritten_slots
  by (simp_all add: reaches_copy_def pointers_ok_def fingerprint_match_Some fingerprint_new
      cressi_consts)

lemma overwritten_newer_profile:
  "profile_echo overwritten_dives 1" "\<exists>profile. slot_profile overwritten_dives 1 = Some profile"
proof -
  show "profile_echo overwritten_dives 1"
    using overwritten_slots
    by (simp add: profile_echo_def array_uint16_le_def overwritten_dives_def
        overwritten_dives_bytes_def image_simps)
  have ok: "pointers_ok overwritten_dives 1"
    using overwritten_reaches(1) by (simp add: reaches_copy_def)
  have dist: "2 \<le> RB_PROFILE_DISTANCE (slot_header overwritten_dives 1)
      (slot_footer overwritten_dives 1)"
    unfolding overwritten_lengths(3) by simp
  show "\<exists>profile. slot_profile overwritten_dives 1 = Some profile"
    using slot_profile_defined [OF ok dist overwritten_size] .
qed

theorem capacity_exhausted_degrades_witness:
  "\<exists>profile c. cressi_leonardo_extract_dives (Some cressi_leonardo_device_new) overwritten_dives
        (Some continue_always)
      = (Returned DC_STATUS_SUCCESS, [profile_call overwritten_dives 1 profile, c])
    \<and> length (call_data c) = 82
    \<and> (\<forall>b<82. call_data c ! b = overwritten_dives ! (256 + b))
    \<and> call_fingerprint c = take 5 (drop 8 (call_data c))"
proof -
  let ?dev = "Some cressi_leonardo_device_new"
  let ?walk = "cressi_leonardo_walk ?dev overwritten_dives (Some continue_always) 1 2"
  obtain profile where profile: "slot_profile overwritten_dives 1 = Some profile"
    using overwritten_newer_profile(2) by blast
  let ?p = "profile_call overwritten_dives 1 profile"
  have first: "?walk 0 0 26824 [] = ?walk 1 0x2002 256 [?p]"
    using walk_profile [of 0 2 ?dev overwritten_dives 1 0 26824 profile "Some continue_always" "[]"]
      overwritten_reaches overwritten_newer_profile(1) profile overwritten_slots
      overwritten_lengths
    by (simp del: One_nat_def add: walk_eval)
  have short: "\<not> ((256 :: uint32) \<noteq> 0
      \<and> 256 \<ge> RB_PROFILE_DISTANCE (slot_header overwritten_dives (walk_idx 1 1))
            (slot_footer overwritten_dives (walk_idx 1 1)) - 2 + 4)"
    unfolding walk_idx_1 overwritten_lengths(4) by simp
  have reach: "reaches_copy ?dev overwritten_dives (walk_idx 1 1) 0x2002"
    unfolding walk_idx_1 by (rule overwritten_reaches(2))
  have "(1 :: nat) < 2" by simp
  from capacity_exhausted_degrades [OF this overwritten_size reach short,
      of continue_always "[?p]"]
  obtain c where c: "length (call_data c) = RB_LOGBOOK_SIZE"
    "\<forall>b<RB_LOGBOOK_SIZE.
       call_data c ! b = overwritten_dives ! (RB_LOGBOOK_BEGIN + walk_idx 1 1 * RB_LOGBOOK_SIZE + b)"
    "call_fingerprint c = take cressi_fingerprint_size (drop 8 (call_data c))"
    "?walk 1 0x2002 256 [?p]
       = (if continue_always [?p] c
            then ?walk (1 + 1) (slot_header overwritten_dives (walk_idx 1 1)) 0 ([?p] @ [c])
          else (Returned DC_STATUS_SUCCESS, [?p] @ [c]))"
    by blast
  from c(4) have "?walk 1 0x2002 256 [?p] = (Returned DC_STATUS_SUCCESS, [?p, c])"
    by (simp add: continue_always_def walk_done)
  with first have "cressi_leonardo_extract_dives ?dev overwritten_dives (Some continue_always)
      = (Returned DC_STATUS_SUCCESS, [?p, c])"
    using overwritten_size
    by (simp add: cressi_leonardo_extract_dives_def overwritten_locate profile_capacity)
  moreover from c(1) have "length (call_data c) = 82"
    by (simp add: RB_LOGBOOK_SIZE_def)
  moreover from c(2) have "\<forall>b<82. call_data c ! b = overwritten_dives ! (256 + b)"
    unfolding walk_idx_1 by (simp add: RB_LOGBOOK_SIZE_def RB_LOGBOOK_BEGIN_def)
  moreover from c(3) have "call_fingerprint c = take 5 (drop 8 (call_data c))"
    by (simp add: cressi_fingerprint_size_def)
  ultimately show ?thesis
    by blast
qed

end
